theory Spec2Isabelle
  imports Main "HOL-Library.AList"
begin

section \<open>Data model of \<^verbatim>\<open>cache_simulator.py\<close>\<close>

text \<open>
  The class \<^verbatim>\<open>CacheSimulator\<close> keeps five attributes that the access path reads and
  writes: the protocol name, the per-thread caches, the shared memory, the metrics and the
  per-thread coherence states. Python dictionaries are association lists here (insertion
  order, \<^verbatim>\<open>d[k] = v\<close> is \<open>AList.update\<close>, lookup is \<open>map_of\<close>); a failed
  lookup \<^verbatim>\<open>d[k]\<close> is the error value \<open>KeyError\<close>. The four coherence states are the
  string literals \<^verbatim>\<open>'I'\<close>, \<^verbatim>\<open>'S'\<close>, \<^verbatim>\<open>'E'\<close>, \<^verbatim>\<open>'M'\<close> of the source. The protocol and
  the access type stay strings, since the source compares them with literals and accepts
  any other string.
\<close>

datatype error = KeyError

datatype mesi = Invalid | Shared | Exclusive | Modified

type_synonym ('k, 'v) dict = "('k \<times> 'v) list"

record Metrics =
  cache_misses :: int
  coherence_messages :: int
  memory_accesses :: int

record ('t, 'a) CacheSimulator =
  protocol :: string
  caches :: "('t, ('a, int) dict) dict"
  shared_memory :: "('a, int) dict"
  metrics :: Metrics
  coherence_states :: "('t, ('a, mesi) dict) dict"

text \<open>\<^verbatim>\<open>__init__\<close> (lines 8-18). The lock is the atomicity of one call of the model.\<close>

definition init_CacheSimulator :: "string \<Rightarrow> ('t, 'a) CacheSimulator" where
  "init_CacheSimulator p =
     \<lparr>protocol = p, caches = [], shared_memory = [],
      metrics = \<lparr>cache_misses = 0, coherence_messages = 0, memory_accesses = 0\<rparr>,
      coherence_states = []\<rparr>"

text \<open>
  \<^verbatim>\<open>init_thread_cache\<close> (lines 20-23). The \<^verbatim>\<open>defaultdict(lambda: 'I')\<close> is an empty
  table; its default is applied where the table is read.
\<close>

definition init_thread_cache :: "'t \<Rightarrow> ('t, 'a) CacheSimulator \<Rightarrow> ('t, 'a) CacheSimulator" where
  "init_thread_cache thread_id s =
     (let s1 = s\<lparr>caches := AList.update thread_id [] (caches s)\<rparr>
      in if protocol s1 = ''MESI''
         then s1\<lparr>coherence_states := AList.update thread_id [] (coherence_states s1)\<rparr>
         else s1)"

subsection \<open>Elementary updates and reads\<close>

definition add_cache_misses :: "int \<Rightarrow> ('t, 'a) CacheSimulator \<Rightarrow> ('t, 'a) CacheSimulator" where
  "add_cache_misses n s = s\<lparr>metrics := (metrics s)\<lparr>cache_misses := cache_misses (metrics s) + n\<rparr>\<rparr>"

definition add_coherence_messages :: "int \<Rightarrow> ('t, 'a) CacheSimulator \<Rightarrow> ('t, 'a) CacheSimulator" where
  "add_coherence_messages n s =
     s\<lparr>metrics := (metrics s)\<lparr>coherence_messages := coherence_messages (metrics s) + n\<rparr>\<rparr>"

definition add_memory_accesses :: "int \<Rightarrow> ('t, 'a) CacheSimulator \<Rightarrow> ('t, 'a) CacheSimulator" where
  "add_memory_accesses n s =
     s\<lparr>metrics := (metrics s)\<lparr>memory_accesses := memory_accesses (metrics s) + n\<rparr>\<rparr>"

text \<open>\<^verbatim>\<open>cache[address] = v\<close>, where \<^verbatim>\<open>cache\<close> is the object \<^verbatim>\<open>self.caches[tid]\<close>.\<close>

definition set_cache :: "'t \<Rightarrow> 'a \<Rightarrow> int \<Rightarrow> ('t, 'a) CacheSimulator \<Rightarrow> ('t, 'a) CacheSimulator" where
  "set_cache tid address v s = s\<lparr>caches := AList.map_entry tid (AList.update address v) (caches s)\<rparr>"

text \<open>\<^verbatim>\<open>self.coherence_states[tid][address] = st\<close>, for a thread whose table exists.\<close>

definition set_state :: "'t \<Rightarrow> 'a \<Rightarrow> mesi \<Rightarrow> ('t, 'a) CacheSimulator \<Rightarrow> ('t, 'a) CacheSimulator" where
  "set_state tid address st s =
     s\<lparr>coherence_states := AList.map_entry tid (AList.update address st) (coherence_states s)\<rparr>"

text \<open>\<^verbatim>\<open>self.shared_memory[address] = v\<close>.\<close>

definition set_shared :: "'a \<Rightarrow> int \<Rightarrow> ('t, 'a) CacheSimulator \<Rightarrow> ('t, 'a) CacheSimulator" where
  "set_shared address v s = s\<lparr>shared_memory := AList.update address v (shared_memory s)\<rparr>"

text \<open>The entry of a thread's cache for an address, if the thread and the entry exist.\<close>

definition cache_lookup :: "('t, 'a) CacheSimulator \<Rightarrow> 't \<Rightarrow> 'a \<Rightarrow> int option" where
  "cache_lookup s tid address =
     (case map_of (caches s) tid of None \<Rightarrow> None | Some c \<Rightarrow> map_of c address)"

text \<open>The entry of a thread's coherence table for an address (\<^verbatim>\<open>address in table\<close>).\<close>

definition state_entry :: "('t, 'a) CacheSimulator \<Rightarrow> 't \<Rightarrow> 'a \<Rightarrow> mesi option" where
  "state_entry s tid address =
     (case map_of (coherence_states s) tid of None \<Rightarrow> None | Some tbl \<Rightarrow> map_of tbl address)"

text \<open>The coherence state a thread holds for an address: the table's default is \<^verbatim>\<open>'I'\<close>.\<close>

definition state_of :: "('t, 'a) CacheSimulator \<Rightarrow> 't \<Rightarrow> 'a \<Rightarrow> mesi" where
  "state_of s tid address = (case state_entry s tid address of None \<Rightarrow> Invalid | Some st \<Rightarrow> st)"

definition registered :: "('t, 'a) CacheSimulator \<Rightarrow> 't \<Rightarrow> bool" where
  "registered s tid = (map_of (caches s) tid \<noteq> None)"

section \<open>The access path\<close>

text \<open>
  \<^verbatim>\<open>access_without_coherence\<close> (lines 33-46). The argument \<open>rnd\<close> is the number that
  \<^verbatim>\<open>random.randint(1, 100)\<close> yields in this call; it is read on the write branch only.
  The result pairs the returned value (or the exception raised) with the state the call
  leaves behind.
\<close>

definition access_without_coherence ::
  "'t \<Rightarrow> 'a \<Rightarrow> string \<Rightarrow> int \<Rightarrow> ('t, 'a) CacheSimulator \<Rightarrow> (error + int) \<times> ('t, 'a) CacheSimulator" where
  "access_without_coherence thread_id address access_type rnd s =
     (case map_of (caches s) thread_id of
        None \<Rightarrow> (Inl KeyError, s)
      | Some cache \<Rightarrow>
          (case (if map_of cache address = None then
                   (let s1 = add_cache_misses 1 s;
                        s2 = (if map_of (shared_memory s1) address = None
                              then set_shared address 0 s1 else s1)
                    in case map_of (shared_memory s2) address of
                         None \<Rightarrow> (Some KeyError, s2)
                       | Some v \<Rightarrow> (None, set_cache thread_id address v s2))
                 else (None, s)) of
             (Some e, s3) \<Rightarrow> (Inl e, s3)
           | (None, s3) \<Rightarrow>
               if access_type = ''read'' then
                 (case cache_lookup s3 thread_id address of
                    None \<Rightarrow> (Inl KeyError, s3)
                  | Some v \<Rightarrow> (Inr v, s3))
               else
                 (Inr rnd, set_shared address rnd (set_cache thread_id address rnd s3))))"

text \<open>
  \<^verbatim>\<open>any(address in c for tid, c in self.caches.items() if tid != thread_id)\<close> (line 53).
\<close>

definition other_has_copy :: "'t \<Rightarrow> 'a \<Rightarrow> ('t, 'a) CacheSimulator \<Rightarrow> bool" where
  "other_has_copy thread_id address s =
     list_ex (\<lambda>(tid, c). tid \<noteq> thread_id \<and> map_of c address \<noteq> None) (caches s)"

text \<open>
  The loop of lines 58-60 over the keys of \<^verbatim>\<open>self.caches\<close>: every thread whose table
  has the address becomes \<^verbatim>\<open>'S'\<close>. \<^verbatim>\<open>self.coherence_states[tid]\<close> is a plain dictionary
  lookup, so a thread without a table raises, and the updates made so far stay.
\<close>

fun mark_shared :: "'a \<Rightarrow> 't list \<Rightarrow> ('t, 'a) CacheSimulator \<Rightarrow> error option \<times> ('t, 'a) CacheSimulator" where
  "mark_shared address [] s = (None, s)"
| "mark_shared address (tid # tids) s =
     (case map_of (coherence_states s) tid of
        None \<Rightarrow> (Some KeyError, s)
      | Some tbl \<Rightarrow>
          mark_shared address tids
            (if map_of tbl address \<noteq> None then set_state tid address Shared s else s))"

text \<open>
  The loop of lines 67-69 and of lines 78-80: every other thread whose table has the
  address becomes \<^verbatim>\<open>'I'\<close>. The test \<^verbatim>\<open>tid != thread_id\<close> comes first, so the
  requester's table is not looked up.
\<close>

fun invalidate_others ::
  "'t \<Rightarrow> 'a \<Rightarrow> 't list \<Rightarrow> ('t, 'a) CacheSimulator \<Rightarrow> error option \<times> ('t, 'a) CacheSimulator" where
  "invalidate_others thread_id address [] s = (None, s)"
| "invalidate_others thread_id address (tid # tids) s =
     (if tid \<noteq> thread_id then
        (case map_of (coherence_states s) tid of
           None \<Rightarrow> (Some KeyError, s)
         | Some tbl \<Rightarrow>
             invalidate_others thread_id address tids
               (if map_of tbl address \<noteq> None then set_state tid address Invalid s else s))
      else invalidate_others thread_id address tids s)"

text \<open>The miss branch of \<^verbatim>\<open>access_with_mesi\<close> (lines 52-72).\<close>

definition mesi_miss ::
  "'t \<Rightarrow> 'a \<Rightarrow> string \<Rightarrow> ('t, 'a) CacheSimulator \<Rightarrow> error option \<times> ('t, 'a) CacheSimulator" where
  "mesi_miss thread_id address access_type s =
     (let s1 = add_cache_misses 1 s;
          other = other_has_copy thread_id address s1;
          s2 = (if map_of (shared_memory s1) address = None then set_shared address 0 s1 else s1)
      in case (if access_type = ''read'' then
                 (if other then
                    (case mark_shared address (map fst (caches s2)) s2 of
                       (Some e, s') \<Rightarrow> (Some e, s')
                     | (None, s') \<Rightarrow>
                         (None, set_state thread_id address Shared (add_coherence_messages 2 s')))
                  else
                    (None, add_coherence_messages 1 (set_state thread_id address Exclusive s2)))
               else
                 (case invalidate_others thread_id address (map fst (caches s2)) s2 of
                    (Some e, s') \<Rightarrow> (Some e, s')
                  | (None, s') \<Rightarrow>
                      (None, add_coherence_messages 2 (set_state thread_id address Modified s')))) of
           (Some e, s3) \<Rightarrow> (Some e, s3)
         | (None, s3) \<Rightarrow>
             (case map_of (shared_memory s3) address of
                None \<Rightarrow> (Some KeyError, s3)
              | Some v \<Rightarrow> (None, set_cache thread_id address v s3)))"

text \<open>The upgrade of a write that found the line \<^verbatim>\<open>'S'\<close> (lines 76-81).\<close>

definition mesi_upgrade ::
  "'t \<Rightarrow> 'a \<Rightarrow> ('t, 'a) CacheSimulator \<Rightarrow> error option \<times> ('t, 'a) CacheSimulator" where
  "mesi_upgrade thread_id address s =
     (let s1 = set_state thread_id address Modified s
      in case invalidate_others thread_id address (map fst (caches s1)) s1 of
           (Some e, s') \<Rightarrow> (Some e, s')
         | (None, s') \<Rightarrow> (None, add_coherence_messages 1 s'))"

text \<open>
  \<^verbatim>\<open>access_with_mesi\<close> (lines 48-85). Reading the \<^verbatim>\<open>defaultdict\<close> at line 50 inserts
  \<^verbatim>\<open>'I'\<close> for an address the table does not have; \<open>state\<close> is the value read there, before
  the call changes anything else.
\<close>

definition access_with_mesi ::
  "'t \<Rightarrow> 'a \<Rightarrow> string \<Rightarrow> int \<Rightarrow> ('t, 'a) CacheSimulator \<Rightarrow> (error + int) \<times> ('t, 'a) CacheSimulator" where
  "access_with_mesi thread_id address access_type rnd s =
     (case map_of (caches s) thread_id of
        None \<Rightarrow> (Inl KeyError, s)
      | Some cache \<Rightarrow>
          (case map_of (coherence_states s) thread_id of
             None \<Rightarrow> (Inl KeyError, s)
           | Some tbl \<Rightarrow>
               (let state = (case map_of tbl address of None \<Rightarrow> Invalid | Some st \<Rightarrow> st);
                    s0 = (if map_of tbl address = None
                          then set_state thread_id address Invalid s else s)
                in case (if map_of cache address = None \<or> state = Invalid
                         then mesi_miss thread_id address access_type s0 else (None, s0)) of
                     (Some e, s1) \<Rightarrow> (Inl e, s1)
                   | (None, s1) \<Rightarrow>
                       if access_type = ''read'' then
                         (case cache_lookup s1 thread_id address of
                            None \<Rightarrow> (Inl KeyError, s1)
                          | Some v \<Rightarrow> (Inr v, s1))
                       else
                         (case (if state = Shared then mesi_upgrade thread_id address s1
                                else (None, s1)) of
                            (Some e, s2) \<Rightarrow> (Inl e, s2)
                          | (None, s2) \<Rightarrow>
                              (Inr rnd,
                               set_shared address rnd (set_cache thread_id address rnd s2))))))"

text \<open>\<^verbatim>\<open>access_memory\<close> (lines 25-31): every protocol other than \<^verbatim>\<open>'none'\<close> takes the MESI path.\<close>

definition access_memory ::
  "'t \<Rightarrow> 'a \<Rightarrow> string \<Rightarrow> int \<Rightarrow> ('t, 'a) CacheSimulator \<Rightarrow> (error + int) \<times> ('t, 'a) CacheSimulator" where
  "access_memory thread_id address access_type rnd s =
     (let s1 = add_memory_accesses 1 s
      in if protocol s1 = ''none''
         then access_without_coherence thread_id address access_type rnd s1
         else access_with_mesi thread_id address access_type rnd s1)"

subsection \<open>Sequences of calls on one engine\<close>

text \<open>
  The two methods a driver calls, and what a sequence of such calls leaves: a call that
  raises ends in the caller, and the engine goes on with the state the call left.
\<close>

datatype ('t, 'a) call = Init_thread_cache 't | Access_memory 't 'a string int

fun call_step :: "('t, 'a) call \<Rightarrow> ('t, 'a) CacheSimulator \<Rightarrow> ('t, 'a) CacheSimulator" where
  "call_step (Init_thread_cache tid) s = init_thread_cache tid s"
| "call_step (Access_memory tid address access_type rnd) s =
     snd (access_memory tid address access_type rnd s)"

definition run_calls :: "('t, 'a) call list \<Rightarrow> ('t, 'a) CacheSimulator \<Rightarrow> ('t, 'a) CacheSimulator" where
  "run_calls cs s = fold call_step cs s"

subsection \<open>The scenario of the specification\<close>

text \<open>A fresh engine with protocol \<^verbatim>\<open>'MESI'\<close> on which threads 0 and 1 are initialised.\<close>

definition scenario_start :: "(nat, 'a) CacheSimulator" where
  "scenario_start = init_thread_cache 1 (init_thread_cache 0 (init_CacheSimulator ''MESI''))"

section \<open>Notions used in the properties\<close>

text \<open>The thread has a coherence table: \<^verbatim>\<open>self.coherence_states[tid]\<close> does not raise.\<close>

definition has_table :: "('t, 'a) CacheSimulator \<Rightarrow> 't \<Rightarrow> bool" where
  "has_table s tid = (map_of (coherence_states s) tid \<noteq> None)"

text \<open>
  Every initialised thread has a coherence table, which is what \<^verbatim>\<open>init_thread_cache\<close>
  sets up under the protocol \<^verbatim>\<open>'MESI'\<close>.
\<close>

definition tables_exist :: "('t, 'a) CacheSimulator \<Rightarrow> bool" where
  "tables_exist s = list_all (\<lambda>tid. map_of (coherence_states s) tid \<noteq> None) (map fst (caches s))"

text \<open>
  The value a miss fills the cache with: the entry of the shared memory, which is 0 for an
  address that is new there (lines 37-39 and 54-55, 72).
\<close>

definition shared_value :: "('t, 'a) CacheSimulator \<Rightarrow> 'a \<Rightarrow> int" where
  "shared_value s a = (case map_of (shared_memory s) a of None \<Rightarrow> 0 | Some v \<Rightarrow> v)"

text \<open>The test of line 51: no cache entry, or the state read at line 50 is \<^verbatim>\<open>'I'\<close>.\<close>

definition is_miss :: "('t, 'a) CacheSimulator \<Rightarrow> 't \<Rightarrow> 'a \<Rightarrow> bool" where
  "is_miss s r a = (cache_lookup s r a = None \<or> state_of s r a = Invalid)"

text \<open>The state after line 50, where reading the table inserts \<^verbatim>\<open>'I'\<close> for a new address.\<close>

definition with_entry :: "'t \<Rightarrow> 'a \<Rightarrow> ('t, 'a) CacheSimulator \<Rightarrow> ('t, 'a) CacheSimulator" where
  "with_entry r a s = (if state_entry s r a = None then set_state r a Invalid s else s)"

text \<open>The value a hit reads, and the value each of the two paths returns.\<close>

definition hit_value :: "('t, 'a) CacheSimulator \<Rightarrow> 't \<Rightarrow> 'a \<Rightarrow> int" where
  "hit_value s r a = (case cache_lookup s r a of None \<Rightarrow> 0 | Some v \<Rightarrow> v)"

definition mesi_result :: "('t, 'a) CacheSimulator \<Rightarrow> 't \<Rightarrow> 'a \<Rightarrow> string \<Rightarrow> int \<Rightarrow> int" where
  "mesi_result s r a k rnd =
     (if k = ''read'' then (if is_miss s r a then shared_value s a else hit_value s r a) else rnd)"

definition none_result :: "('t, 'a) CacheSimulator \<Rightarrow> 't \<Rightarrow> 'a \<Rightarrow> string \<Rightarrow> int \<Rightarrow> int" where
  "none_result s r a k rnd =
     (if k = ''read'' then (case cache_lookup s r a of None \<Rightarrow> shared_value s a | Some v \<Rightarrow> v)
      else rnd)"

text \<open>
  The invariant of the MESI path: the protocol is \<^verbatim>\<open>'MESI'\<close>, every initialised thread
  has a table, a table entry comes with a cache entry, and a thread that holds an address
  Modified or Exclusive is the only one that holds it in a state other than Invalid.
\<close>

definition entries_cached :: "('t, 'a) CacheSimulator \<Rightarrow> bool" where
  "entries_cached s = (\<forall>t a. state_entry s t a \<noteq> None \<longrightarrow> cache_lookup s t a \<noteq> None)"

definition exclusive_owner :: "('t, 'a) CacheSimulator \<Rightarrow> bool" where
  "exclusive_owner s =
     (\<forall>a t1 t2. t1 \<noteq> t2 \<longrightarrow> state_of s t1 a = Modified \<or> state_of s t1 a = Exclusive \<longrightarrow>
        state_of s t2 a = Invalid)"

definition mesi_inv :: "('t, 'a) CacheSimulator \<Rightarrow> bool" where
  "mesi_inv s = (protocol s = ''MESI'' \<and> tables_exist s \<and> entries_cached s \<and> exclusive_owner s)"

text \<open>An address no thread has accessed: in no cache and not in the shared memory.\<close>

definition untouched :: "('t, 'a) CacheSimulator \<Rightarrow> 'a \<Rightarrow> bool" where
  "untouched s address =
     (list_all (\<lambda>(tid, c). map_of c address = None) (caches s)
      \<and> map_of (shared_memory s) address = None)"

subsection \<open>Concrete runs\<close>

definition write_then_idle :: "(nat, string) call list" where
  "write_then_idle =
     [Init_thread_cache 0, Init_thread_cache 1, Access_memory 0 ''X'' ''write'' 42]"

definition read_then_foreign_write :: "(nat, string) call list" where
  "read_then_foreign_write =
     [Init_thread_cache 0, Init_thread_cache 1, Init_thread_cache 2,
      Access_memory 0 ''X'' ''read'' 1, Access_memory 1 ''X'' ''write'' 5]"

definition read_by_second :: "(nat, string) call list" where
  "read_by_second = [Init_thread_cache 0, Init_thread_cache 1, Access_memory 1 ''X'' ''read'' 1]"

section \<open>Properties of the model\<close>

lemmas engine_defs =
  access_memory_def access_with_mesi_def access_without_coherence_def init_thread_cache_def
  init_CacheSimulator_def add_memory_accesses_def mesi_miss_def mesi_upgrade_def
  add_cache_misses_def add_coherence_messages_def other_has_copy_def set_shared_def
  set_state_def set_cache_def cache_lookup_def state_entry_def state_of_def registered_def

subsection \<open>Elementary updates\<close>

lemma set_state_fields [simp]:
  "protocol (set_state t a st s) = protocol s"
  "caches (set_state t a st s) = caches s"
  "shared_memory (set_state t a st s) = shared_memory s"
  "metrics (set_state t a st s) = metrics s"
  by (simp_all add: set_state_def)

lemma set_cache_fields [simp]:
  "protocol (set_cache t a v s) = protocol s"
  "coherence_states (set_cache t a v s) = coherence_states s"
  "shared_memory (set_cache t a v s) = shared_memory s"
  "metrics (set_cache t a v s) = metrics s"
  by (simp_all add: set_cache_def)

lemma set_shared_fields [simp]:
  "protocol (set_shared a v s) = protocol s"
  "coherence_states (set_shared a v s) = coherence_states s"
  "caches (set_shared a v s) = caches s"
  "metrics (set_shared a v s) = metrics s"
  "map_of (shared_memory (set_shared a v s)) = (map_of (shared_memory s))(a \<mapsto> v)"
  by (simp_all add: set_shared_def update_conv')

lemma add_cache_misses_fields [simp]:
  "protocol (add_cache_misses n s) = protocol s"
  "coherence_states (add_cache_misses n s) = coherence_states s"
  "caches (add_cache_misses n s) = caches s"
  "shared_memory (add_cache_misses n s) = shared_memory s"
  "cache_misses (metrics (add_cache_misses n s)) = cache_misses (metrics s) + n"
  "coherence_messages (metrics (add_cache_misses n s)) = coherence_messages (metrics s)"
  "memory_accesses (metrics (add_cache_misses n s)) = memory_accesses (metrics s)"
  by (simp_all add: add_cache_misses_def)

lemma add_coherence_messages_fields [simp]:
  "protocol (add_coherence_messages n s) = protocol s"
  "coherence_states (add_coherence_messages n s) = coherence_states s"
  "caches (add_coherence_messages n s) = caches s"
  "shared_memory (add_coherence_messages n s) = shared_memory s"
  "cache_misses (metrics (add_coherence_messages n s)) = cache_misses (metrics s)"
  "coherence_messages (metrics (add_coherence_messages n s)) = coherence_messages (metrics s) + n"
  "memory_accesses (metrics (add_coherence_messages n s)) = memory_accesses (metrics s)"
  by (simp_all add: add_coherence_messages_def)

lemma add_memory_accesses_fields [simp]:
  "protocol (add_memory_accesses n s) = protocol s"
  "coherence_states (add_memory_accesses n s) = coherence_states s"
  "caches (add_memory_accesses n s) = caches s"
  "shared_memory (add_memory_accesses n s) = shared_memory s"
  "cache_misses (metrics (add_memory_accesses n s)) = cache_misses (metrics s)"
  "coherence_messages (metrics (add_memory_accesses n s)) = coherence_messages (metrics s)"
  "memory_accesses (metrics (add_memory_accesses n s)) = memory_accesses (metrics s) + n"
  by (simp_all add: add_memory_accesses_def)

lemma has_table_set_state [simp]: "has_table (set_state t a st s) t' = has_table s t'"
  by (simp add: has_table_def set_state_def map_of_map_entry split: option.splits)

lemma keys_set_cache [simp]: "map fst (caches (set_cache t a v s)) = map fst (caches s)"
proof -
  have "map fst (AList.map_entry t f xs) = map fst xs" for f :: "('b \<times> int) list \<Rightarrow> ('b \<times> int) list" and xs
    by (induction xs) auto
  then show ?thesis by (simp add: set_cache_def)
qed

lemma registered_set_cache [simp]: "registered (set_cache t a v s) t' = registered s t'"
  by (simp add: registered_def set_cache_def map_of_map_entry split: option.splits)

lemma has_table_cong: "coherence_states s' = coherence_states s \<Longrightarrow> has_table s' = has_table s"
  by (simp add: has_table_def fun_eq_iff)

lemma registered_cong: "caches s' = caches s \<Longrightarrow> registered s' = registered s"
  by (simp add: registered_def fun_eq_iff)

lemma state_entry_set_state:
  "state_entry (set_state t a st s) t' a' =
     (if t' = t \<and> a' = a \<and> has_table s t then Some st
      else state_entry s t' a')"
  by (auto simp add: has_table_def state_entry_def set_state_def map_of_map_entry update_conv' split: option.splits)

lemma cache_lookup_set_cache:
  "cache_lookup (set_cache t a v s) t' a' =
     (if t' = t \<and> a' = a \<and> registered s t then Some v
      else cache_lookup s t' a')"
  by (auto simp add: registered_def cache_lookup_def set_cache_def map_of_map_entry update_conv' split: option.splits)

lemma cache_lookup_cong: "caches s' = caches s \<Longrightarrow> cache_lookup s' = cache_lookup s"
  by (simp add: cache_lookup_def fun_eq_iff)

lemma state_entry_cong: "coherence_states s' = coherence_states s \<Longrightarrow> state_entry s' = state_entry s"
  by (simp add: state_entry_def fun_eq_iff)

lemma tables_exist_iff:
  "tables_exist s = (\<forall>t. registered s t \<longrightarrow> has_table s t)"
  by (auto simp add: tables_exist_def registered_def has_table_def list_all_iff map_of_eq_None_iff)

lemma has_tableD: "has_table s t \<Longrightarrow> \<exists>tbl. map_of (coherence_states s) t = Some tbl"
  by (simp add: has_table_def)

subsection \<open>The two loops\<close>

lemma mark_shared_fields [simp]:
  "protocol (snd (mark_shared a tids s)) = protocol s"
  "caches (snd (mark_shared a tids s)) = caches s"
  "shared_memory (snd (mark_shared a tids s)) = shared_memory s"
  "metrics (snd (mark_shared a tids s)) = metrics s"
  by (induction tids arbitrary: s; simp split: option.splits)+

lemma mark_shared_table [simp]: "has_table (snd (mark_shared a tids s)) t = has_table s t"
  by (induction tids arbitrary: s; simp split: option.splits)

lemma mark_shared_ok:
  "\<forall>t\<in>set tids. has_table s t \<Longrightarrow> fst (mark_shared a tids s) = None"
  by (induction tids arbitrary: s) (auto split: option.splits dest: has_tableD)

lemma mark_shared_entry:
  "\<forall>t\<in>set tids. has_table s t \<Longrightarrow>
   state_entry (snd (mark_shared a tids s)) t a' =
     (if t \<in> set tids \<and> a' = a \<and> state_entry s t a \<noteq> None then Some Shared else state_entry s t a')"
proof (induction tids arbitrary: s)
  case Nil
  then show ?case by simp
next
  case (Cons tid tids)
  then obtain tbl where tbl: "map_of (coherence_states s) tid = Some tbl"
    by (auto simp add: has_table_def)
  let ?s1 = "if map_of tbl a \<noteq> None then set_state tid a Shared s else s"
  have ex: "\<forall>t\<in>set tids. has_table ?s1 t"
    using Cons.prems by simp
  have step: "mark_shared a (tid # tids) s = mark_shared a tids ?s1"
    using tbl by simp
  have e1: "state_entry ?s1 t a' =
      (if t = tid \<and> a' = a \<and> state_entry s t a \<noteq> None then Some Shared else state_entry s t a')" for t a'
    using tbl by (auto simp add: state_entry_set_state) (simp_all add: state_entry_def has_table_def)
  show ?case
    unfolding step Cons.IH [OF ex] e1 by auto
qed

lemma invalidate_others_fields [simp]:
  "protocol (snd (invalidate_others r a tids s)) = protocol s"
  "caches (snd (invalidate_others r a tids s)) = caches s"
  "shared_memory (snd (invalidate_others r a tids s)) = shared_memory s"
  "metrics (snd (invalidate_others r a tids s)) = metrics s"
  by (induction tids arbitrary: s; simp split: option.splits)+

lemma invalidate_others_table [simp]: "has_table (snd (invalidate_others r a tids s)) t = has_table s t"
  by (induction tids arbitrary: s; simp split: option.splits)

lemma invalidate_others_ok:
  "\<forall>t\<in>set tids. has_table s t \<Longrightarrow> fst (invalidate_others r a tids s) = None"
  by (induction tids arbitrary: s) (auto split: option.splits dest: has_tableD)

lemma invalidate_others_entry:
  "\<forall>t\<in>set tids. has_table s t \<Longrightarrow>
   state_entry (snd (invalidate_others r a tids s)) t a' =
     (if t \<in> set tids \<and> t \<noteq> r \<and> a' = a \<and> state_entry s t a \<noteq> None then Some Invalid
      else state_entry s t a')"
proof (induction tids arbitrary: s)
  case Nil
  then show ?case by simp
next
  case (Cons tid tids)
  show ?case
  proof (cases "tid = r")
    case True
    then show ?thesis using Cons.IH [of s] Cons.prems by auto
  next
    case False
    from Cons.prems obtain tbl where tbl: "map_of (coherence_states s) tid = Some tbl"
      by (auto simp add: has_table_def)
    let ?s1 = "if map_of tbl a \<noteq> None then set_state tid a Invalid s else s"
    have ex: "\<forall>t\<in>set tids. has_table ?s1 t"
      using Cons.prems by simp
    have step: "invalidate_others r a (tid # tids) s = invalidate_others r a tids ?s1"
      using tbl False by simp
    have e1: "state_entry ?s1 t a' =
        (if t = tid \<and> a' = a \<and> state_entry s t a \<noteq> None then Some Invalid else state_entry s t a')" for t a'
      using tbl by (auto simp add: state_entry_set_state) (simp_all add: state_entry_def has_table_def)
    show ?thesis
      unfolding step Cons.IH [OF ex] e1 using False by auto
  qed
qed

subsection \<open>What the updates leave unchanged\<close>

lemma observers_set_shared [simp]:
  "has_table (set_shared a v s) = has_table s"
  "registered (set_shared a v s) = registered s"
  "state_entry (set_shared a v s) = state_entry s"
  "cache_lookup (set_shared a v s) = cache_lookup s"
  by (rule has_table_cong registered_cong state_entry_cong cache_lookup_cong; simp)+

lemma observers_add_cache_misses [simp]:
  "has_table (add_cache_misses n s) = has_table s"
  "registered (add_cache_misses n s) = registered s"
  "state_entry (add_cache_misses n s) = state_entry s"
  "cache_lookup (add_cache_misses n s) = cache_lookup s"
  by (rule has_table_cong registered_cong state_entry_cong cache_lookup_cong; simp)+

lemma observers_add_coherence_messages [simp]:
  "has_table (add_coherence_messages n s) = has_table s"
  "registered (add_coherence_messages n s) = registered s"
  "state_entry (add_coherence_messages n s) = state_entry s"
  "cache_lookup (add_coherence_messages n s) = cache_lookup s"
  by (rule has_table_cong registered_cong state_entry_cong cache_lookup_cong; simp)+

lemma observers_add_memory_accesses [simp]:
  "has_table (add_memory_accesses n s) = has_table s"
  "registered (add_memory_accesses n s) = registered s"
  "state_entry (add_memory_accesses n s) = state_entry s"
  "cache_lookup (add_memory_accesses n s) = cache_lookup s"
  by (rule has_table_cong registered_cong state_entry_cong cache_lookup_cong; simp)+

lemma observers_set_state [simp]:
  "registered (set_state t a st s) = registered s"
  "cache_lookup (set_state t a st s) = cache_lookup s"
  by (rule registered_cong cache_lookup_cong; simp)+

lemma observers_set_cache [simp]:
  "has_table (set_cache t a v s) = has_table s"
  "state_entry (set_cache t a v s) = state_entry s"
  by (rule has_table_cong state_entry_cong; simp)+

lemma observers_mark_shared [simp]:
  "registered (snd (mark_shared a tids s)) = registered s"
  "cache_lookup (snd (mark_shared a tids s)) = cache_lookup s"
  by (rule registered_cong cache_lookup_cong; simp)+

lemma observers_invalidate_others [simp]:
  "registered (snd (invalidate_others r a tids s)) = registered s"
  "cache_lookup (snd (invalidate_others r a tids s)) = cache_lookup s"
  by (rule registered_cong cache_lookup_cong; simp)+

lemma registered_keys: "registered s t = (t \<in> set (map fst (caches s)))"
  by (simp add: registered_def map_of_eq_None_iff)

lemma tables_exist_keys: "tables_exist s \<Longrightarrow> \<forall>t\<in>set (map fst (caches s)). has_table s t"
  by (simp add: tables_exist_def has_table_def list_all_iff)

subsection \<open>The miss branch and the upgrade\<close>

lemma mesi_miss_ok:
  assumes "tables_exist s"
  shows "fst (mesi_miss r a k s) = None"
proof -
  have h: "\<forall>t\<in>set (map fst (caches s)). has_table s t" using assms by (rule tables_exist_keys)
  show ?thesis using h
    by (simp add: mesi_miss_def Let_def split_beta mark_shared_ok invalidate_others_ok
         split: option.splits)
qed

lemma mesi_miss_preserves [simp]:
  "protocol (snd (mesi_miss r a k s)) = protocol s"
  "registered (snd (mesi_miss r a k s)) = registered s"
  "has_table (snd (mesi_miss r a k s)) = has_table s"
  by (simp_all add: mesi_miss_def Let_def split_beta fun_eq_iff split: option.splits)

lemma mesi_miss_metrics:
  "memory_accesses (metrics (snd (mesi_miss r a k s))) = memory_accesses (metrics s)"
  "cache_misses (metrics (snd (mesi_miss r a k s))) = cache_misses (metrics s) + 1"
  "coherence_messages (metrics s) \<le> coherence_messages (metrics (snd (mesi_miss r a k s)))"
  by (simp_all add: mesi_miss_def Let_def split_beta split: option.splits)

lemma mesi_miss_messages:
  assumes "tables_exist s"
  shows "coherence_messages (metrics (snd (mesi_miss r a k s))) =
           coherence_messages (metrics s) +
           (if k = ''read'' \<and> \<not> other_has_copy r a s then 1 else 2)"
proof -
  have h: "\<forall>t\<in>set (map fst (caches s)). has_table s t" using assms by (rule tables_exist_keys)
  have o: "other_has_copy r a (add_cache_misses 1 s) = other_has_copy r a s"
    by (simp add: other_has_copy_def)
  show ?thesis using h
    by (simp add: mesi_miss_def Let_def split_beta mark_shared_ok invalidate_others_ok o
         split: option.splits)
qed

lemma mesi_miss_shared:
  assumes "tables_exist s"
  shows "map_of (shared_memory (snd (mesi_miss r a k s))) =
           (map_of (shared_memory s))(a \<mapsto> shared_value s a)"
proof -
  have h: "\<forall>t\<in>set (map fst (caches s)). has_table s t" using assms by (rule tables_exist_keys)
  show ?thesis using h
    by (auto simp add: mesi_miss_def Let_def split_beta mark_shared_ok invalidate_others_ok
          shared_value_def fun_eq_iff split: option.splits)
qed

lemma mesi_miss_cache:
  assumes "tables_exist s" and "registered s r"
  shows "cache_lookup (snd (mesi_miss r a k s)) t a' =
           (if t = r \<and> a' = a then Some (shared_value s a) else cache_lookup s t a')"
proof -
  have h: "\<forall>t\<in>set (map fst (caches s)). has_table s t" using assms(1) by (rule tables_exist_keys)
  show ?thesis using h assms(2)
    by (auto simp add: mesi_miss_def Let_def split_beta mark_shared_ok invalidate_others_ok
          shared_value_def cache_lookup_set_cache split: option.splits)
qed

lemma mesi_miss_entry:
  assumes "tables_exist s" and "registered s r"
  shows "state_entry (snd (mesi_miss r a k s)) t a' =
           (if a' = a then
              (if k = ''read'' then
                 (if other_has_copy r a s then
                    (if t = r \<or> (registered s t \<and> state_entry s t a \<noteq> None) then Some Shared
                     else state_entry s t a)
                  else (if t = r then Some Exclusive else state_entry s t a))
               else
                 (if t = r then Some Modified
                  else if registered s t \<and> state_entry s t a \<noteq> None then Some Invalid
                  else state_entry s t a))
            else state_entry s t a')"
proof -
  have h: "\<forall>t\<in>set (map fst (caches s)). has_table s t" using assms(1) by (rule tables_exist_keys)
  have r: "has_table s r" using assms by (simp add: tables_exist_iff)
  have o: "other_has_copy r a (add_cache_misses 1 s) = other_has_copy r a s"
    by (simp add: other_has_copy_def)
  show ?thesis using h r
    by (auto simp add: mesi_miss_def Let_def split_beta mark_shared_ok invalidate_others_ok o
          state_entry_set_state mark_shared_entry invalidate_others_entry registered_keys
          split: option.splits)
qed

lemma mesi_upgrade_preserves [simp]:
  "protocol (snd (mesi_upgrade r a s)) = protocol s"
  "registered (snd (mesi_upgrade r a s)) = registered s"
  "has_table (snd (mesi_upgrade r a s)) = has_table s"
  "cache_lookup (snd (mesi_upgrade r a s)) = cache_lookup s"
  "shared_memory (snd (mesi_upgrade r a s)) = shared_memory s"
  by (simp_all add: mesi_upgrade_def Let_def split_beta fun_eq_iff split: option.splits)

lemma mesi_upgrade_metrics:
  "memory_accesses (metrics (snd (mesi_upgrade r a s))) = memory_accesses (metrics s)"
  "cache_misses (metrics (snd (mesi_upgrade r a s))) = cache_misses (metrics s)"
  "coherence_messages (metrics s) \<le> coherence_messages (metrics (snd (mesi_upgrade r a s)))"
  by (simp_all add: mesi_upgrade_def Let_def split_beta split: option.splits)

lemma mesi_upgrade_ok:
  assumes "tables_exist s"
  shows "fst (mesi_upgrade r a s) = None"
    and "coherence_messages (metrics (snd (mesi_upgrade r a s))) = coherence_messages (metrics s) + 1"
proof -
  have h: "\<forall>t\<in>set (map fst (caches s)). has_table s t" using assms by (rule tables_exist_keys)
  show "fst (mesi_upgrade r a s) = None" using h
    by (simp add: mesi_upgrade_def Let_def split_beta invalidate_others_ok split: option.splits)
  show "coherence_messages (metrics (snd (mesi_upgrade r a s))) = coherence_messages (metrics s) + 1"
    using h
    by (simp add: mesi_upgrade_def Let_def split_beta invalidate_others_ok split: option.splits)
qed

lemma mesi_upgrade_entry:
  assumes "tables_exist s" and "registered s r"
  shows "state_entry (snd (mesi_upgrade r a s)) t a' =
           (if a' = a then
              (if t = r then Some Modified
               else if registered s t \<and> state_entry s t a \<noteq> None then Some Invalid
               else state_entry s t a)
            else state_entry s t a')"
proof -
  have h: "\<forall>t\<in>set (map fst (caches s)). has_table s t" using assms(1) by (rule tables_exist_keys)
  have r: "has_table s r" using assms by (simp add: tables_exist_iff)
  show ?thesis using h r
    by (auto simp add: mesi_upgrade_def Let_def split_beta invalidate_others_ok
          state_entry_set_state invalidate_others_entry registered_keys split: option.splits)
qed

subsection \<open>The access under MESI\<close>

lemma with_entry_facts [simp]:
  "protocol (with_entry r a s) = protocol s"
  "caches (with_entry r a s) = caches s"
  "shared_memory (with_entry r a s) = shared_memory s"
  "metrics (with_entry r a s) = metrics s"
  "registered (with_entry r a s) = registered s"
  "has_table (with_entry r a s) = has_table s"
  "cache_lookup (with_entry r a s) = cache_lookup s"
  "tables_exist (with_entry r a s) = tables_exist s"
  "other_has_copy r' a' (with_entry r a s) = other_has_copy r' a' s"
  "shared_value (with_entry r a s) = shared_value s"
  by (simp_all add: with_entry_def fun_eq_iff tables_exist_iff other_has_copy_def shared_value_def)

lemma with_entry_entry:
  "has_table s r \<Longrightarrow> state_entry (with_entry r a s) t a' =
     (if t = r \<and> a' = a \<and> state_entry s r a = None then Some Invalid else state_entry s t a')"
  by (simp add: with_entry_def state_entry_set_state)

lemma access_with_mesi_unfold:
  assumes "registered s r" and "has_table s r"
  shows "access_with_mesi r a k rnd s =
     (let m = (if is_miss s r a then mesi_miss r a k (with_entry r a s)
               else (None, with_entry r a s))
      in case fst m of
           Some e \<Rightarrow> (Inl e, snd m)
         | None \<Rightarrow>
             if k = ''read'' then
               (case cache_lookup (snd m) r a of
                  None \<Rightarrow> (Inl KeyError, snd m)
                | Some v \<Rightarrow> (Inr v, snd m))
             else
               (let u = (if state_of s r a = Shared then mesi_upgrade r a (snd m)
                         else (None, snd m))
                in case fst u of
                     Some e \<Rightarrow> (Inl e, snd u)
                   | None \<Rightarrow> (Inr rnd, set_shared a rnd (set_cache r a rnd (snd u)))))"
proof -
  from assms obtain cache tbl where
    c: "map_of (caches s) r = Some cache" and tb: "map_of (coherence_states s) r = Some tbl"
    by (auto simp add: registered_def has_table_def)
  have m: "(map_of cache a = None \<or> state_of s r a = Invalid) = is_miss s r a"
    using c by (simp add: is_miss_def cache_lookup_def)
  have st: "(case map_of tbl a of None \<Rightarrow> Invalid | Some st \<Rightarrow> st) = state_of s r a"
    using tb by (simp add: state_of_def state_entry_def)
  have s0: "(if map_of tbl a = None then set_state r a Invalid s else s) = with_entry r a s"
    using tb by (simp add: with_entry_def state_entry_def)
  show ?thesis
    unfolding access_with_mesi_def Let_def c tb option.case st s0 m
    by (auto simp add: split_beta split: option.splits prod.splits)
qed

lemma access_with_mesi_unregistered:
  "\<not> registered s r \<or> \<not> has_table s r \<Longrightarrow> access_with_mesi r a k rnd s = (Inl KeyError, s)"
  by (auto simp add: access_with_mesi_def registered_def has_table_def split: option.splits)

lemma access_with_mesi_preserves [simp]:
  "protocol (snd (access_with_mesi r a k rnd s)) = protocol s"
  "registered (snd (access_with_mesi r a k rnd s)) = registered s"
  "has_table (snd (access_with_mesi r a k rnd s)) = has_table s"
proof -
  let ?s' = "snd (access_with_mesi r a k rnd s)"
  have "protocol ?s' = protocol s \<and> registered ?s' = registered s \<and> has_table ?s' = has_table s"
  proof (cases "registered s r \<and> has_table s r")
    case True
    then show ?thesis
      by (simp add: access_with_mesi_unfold Let_def fun_eq_iff split: option.splits)
  next
    case False
    then show ?thesis by (simp add: access_with_mesi_unregistered)
  qed
  then show "protocol ?s' = protocol s" "registered ?s' = registered s" "has_table ?s' = has_table s"
    by simp_all
qed

lemma access_with_mesi_monotone:
  "memory_accesses (metrics (snd (access_with_mesi r a k rnd s))) = memory_accesses (metrics s)"
  "cache_misses (metrics s) \<le> cache_misses (metrics (snd (access_with_mesi r a k rnd s)))"
  "coherence_messages (metrics s) \<le> coherence_messages (metrics (snd (access_with_mesi r a k rnd s)))"
proof -
  let ?s' = "snd (access_with_mesi r a k rnd s)"
  have "memory_accesses (metrics ?s') = memory_accesses (metrics s)
      \<and> cache_misses (metrics s) \<le> cache_misses (metrics ?s')
      \<and> coherence_messages (metrics s) \<le> coherence_messages (metrics ?s')"
  proof (cases "registered s r \<and> has_table s r")
    case True
    have m: "coherence_messages (metrics s)
               \<le> coherence_messages (metrics (snd (mesi_miss r a k' (with_entry r a s))))" for k'
      using mesi_miss_metrics(3) [of "with_entry r a s" r a k'] by simp
    have u: "coherence_messages (metrics x) \<le> coherence_messages (metrics (snd (mesi_upgrade r a x)))" for x
      by (rule mesi_upgrade_metrics)
    have mu: "coherence_messages (metrics s)
               \<le> coherence_messages (metrics (snd (mesi_upgrade r a (snd (mesi_miss r a k' (with_entry r a s))))))" for k'
      using m [of k'] u [of "snd (mesi_miss r a k' (with_entry r a s))"] by simp
    have u0: "coherence_messages (metrics s)
               \<le> coherence_messages (metrics (snd (mesi_upgrade r a (with_entry r a s))))"
      using u [of "with_entry r a s"] by simp
    from True show ?thesis
      by (simp add: access_with_mesi_unfold Let_def mesi_miss_metrics mesi_upgrade_metrics m mu u0
            split: option.splits)
  next
    case False
    then show ?thesis by (simp add: access_with_mesi_unregistered)
  qed
  then show "memory_accesses (metrics ?s') = memory_accesses (metrics s)"
    "cache_misses (metrics s) \<le> cache_misses (metrics ?s')"
    "coherence_messages (metrics s) \<le> coherence_messages (metrics ?s')"
    by simp_all
qed

lemma tables_exist_after_miss:
  "tables_exist s \<Longrightarrow> tables_exist (snd (mesi_miss r a k (with_entry r a s)))"
  by (simp add: tables_exist_iff)

lemma access_with_mesi_value:
  assumes "tables_exist s" and "registered s r"
  shows "fst (access_with_mesi r a k rnd s) = Inr (mesi_result s r a k rnd)"
proof -
  have r: "has_table s r" using assms by (simp add: tables_exist_iff)
  have hit: "\<not> is_miss s r a \<Longrightarrow> cache_lookup s r a = Some (hit_value s r a)"
    by (auto simp add: is_miss_def hit_value_def)
  show ?thesis using assms
    by (simp add: access_with_mesi_unfold r Let_def mesi_miss_ok mesi_miss_cache mesi_upgrade_ok
          tables_exist_after_miss mesi_result_def hit)
qed

lemma access_with_mesi_cache:
  assumes "tables_exist s" and "registered s r"
  shows "cache_lookup (snd (access_with_mesi r a k rnd s)) t a' =
           (if t = r \<and> a' = a then Some (mesi_result s r a k rnd) else cache_lookup s t a')"
proof -
  have r: "has_table s r" using assms by (simp add: tables_exist_iff)
  have hit: "\<not> is_miss s r a \<Longrightarrow> cache_lookup s r a = Some (hit_value s r a)"
    by (auto simp add: is_miss_def hit_value_def)
  show ?thesis using assms
    by (auto simp add: access_with_mesi_unfold r Let_def mesi_miss_ok mesi_miss_cache mesi_upgrade_ok
          tables_exist_after_miss mesi_result_def hit cache_lookup_set_cache)
qed

lemma access_with_mesi_shared:
  assumes "tables_exist s" and "registered s r" and "k \<noteq> ''read''"
  shows "map_of (shared_memory (snd (access_with_mesi r a k rnd s))) a = Some rnd"
proof -
  have r: "has_table s r" using assms by (simp add: tables_exist_iff)
  show ?thesis using assms
    by (simp add: access_with_mesi_unfold r Let_def mesi_miss_ok mesi_upgrade_ok
          tables_exist_after_miss)
qed

lemma access_with_mesi_misses:
  assumes "tables_exist s" and "registered s r"
  shows "cache_misses (metrics (snd (access_with_mesi r a k rnd s))) =
           cache_misses (metrics s) + (if is_miss s r a then 1 else 0)"
proof -
  have r: "has_table s r" using assms by (simp add: tables_exist_iff)
  have hit: "\<not> is_miss s r a \<Longrightarrow> cache_lookup s r a = Some (hit_value s r a)"
    by (auto simp add: is_miss_def hit_value_def)
  show ?thesis using assms
    by (simp add: access_with_mesi_unfold r Let_def mesi_miss_ok mesi_miss_cache mesi_upgrade_ok
          tables_exist_after_miss mesi_miss_metrics mesi_upgrade_metrics hit)
qed

lemma hit_has_entry: "\<not> is_miss s r a \<Longrightarrow> state_entry s r a \<noteq> None"
  by (auto simp add: is_miss_def state_of_def split: option.splits)

lemma access_with_mesi_entry:
  assumes "tables_exist s" and "registered s r"
  shows "state_entry (snd (access_with_mesi r a k rnd s)) t a' =
           (if a' = a then
              (if k = ''read'' then
                 (if is_miss s r a then
                    (if other_has_copy r a s then
                       (if t = r \<or> (registered s t \<and> state_entry s t a \<noteq> None) then Some Shared
                        else state_entry s t a)
                     else (if t = r then Some Exclusive else state_entry s t a))
                  else state_entry s t a)
               else
                 (if is_miss s r a \<or> state_of s r a = Shared then
                    (if t = r then Some Modified
                     else if registered s t \<and> state_entry s t a \<noteq> None then Some Invalid
                     else state_entry s t a)
                  else state_entry s t a))
            else state_entry s t a')"
proof -
  have r: "has_table s r" using assms by (simp add: tables_exist_iff)
  have hit: "\<not> is_miss s r a \<Longrightarrow> cache_lookup s r a = Some (hit_value s r a)"
    by (auto simp add: is_miss_def hit_value_def)
  have we: "\<not> is_miss s r a \<Longrightarrow> with_entry r a s = s"
    using hit_has_entry [of s r a] by (auto simp add: with_entry_def)
  show ?thesis
  proof (cases "is_miss s r a")
    case True
    then show ?thesis using assms r
      by (auto simp add: access_with_mesi_unfold Let_def mesi_miss_ok mesi_miss_cache mesi_upgrade_ok
            tables_exist_after_miss mesi_miss_entry mesi_upgrade_entry with_entry_entry)
  next
    case False
    then show ?thesis using assms r
      by (auto simp add: access_with_mesi_unfold Let_def mesi_upgrade_ok hit we mesi_upgrade_entry)
  qed
qed

subsection \<open>The invariant of the MESI path\<close>

lemma cached_registered: "cache_lookup s t a \<noteq> None \<Longrightarrow> registered s t"
  by (auto simp add: cache_lookup_def registered_def split: option.splits)

lemma no_other_copy:
  assumes "\<not> other_has_copy r a s" and "t \<noteq> r"
  shows "cache_lookup s t a = None"
proof (rule ccontr)
  assume "cache_lookup s t a \<noteq> None"
  then obtain c v where c: "map_of (caches s) t = Some c" and v: "map_of c a = Some v"
    by (auto simp add: cache_lookup_def split: option.splits)
  from c have "(t, c) \<in> set (caches s)" by (rule map_of_SomeD)
  with v assms(2) have "other_has_copy r a s"
    by (auto simp add: other_has_copy_def list_ex_iff)
  with assms(1) show False by simp
qed

lemma access_with_mesi_state_of:
  assumes "tables_exist s" and "entries_cached s" and "registered s r"
  shows "state_of (snd (access_with_mesi r a k rnd s)) t a' =
           (if a' = a then
              (if k = ''read'' then
                 (if is_miss s r a then
                    (if other_has_copy r a s then
                       (if t = r \<or> state_entry s t a \<noteq> None then Shared else Invalid)
                     else (if t = r then Exclusive else Invalid))
                  else state_of s t a)
               else
                 (if is_miss s r a \<or> state_of s r a = Shared then
                    (if t = r then Modified else Invalid)
                  else state_of s t a))
            else state_of s t a')"
proof -
  have reg: "state_entry s t a \<noteq> None \<Longrightarrow> registered s t"
    using assms(2) cached_registered [of s t a] unfolding entries_cached_def by blast
  have excl: "\<not> other_has_copy r a s \<Longrightarrow> t \<noteq> r \<Longrightarrow> state_entry s t a = None"
    using no_other_copy [of r a s t] assms(2) unfolding entries_cached_def by blast
  show ?thesis
    unfolding state_of_def [of "snd (access_with_mesi r a k rnd s)"]
      access_with_mesi_entry [OF assms(1,3)]
    using reg excl by (auto simp add: state_of_def split: option.splits)
qed

lemma more_observers_add_memory_accesses [simp]:
  "state_of (add_memory_accesses n s) = state_of s"
  "is_miss (add_memory_accesses n s) = is_miss s"
  "other_has_copy r a (add_memory_accesses n s) = other_has_copy r a s"
  "tables_exist (add_memory_accesses n s) = tables_exist s"
  "entries_cached (add_memory_accesses n s) = entries_cached s"
  "exclusive_owner (add_memory_accesses n s) = exclusive_owner s"
  "shared_value (add_memory_accesses n s) = shared_value s"
  "hit_value (add_memory_accesses n s) = hit_value s"
  by (simp_all add: state_of_def is_miss_def other_has_copy_def tables_exist_iff entries_cached_def
        exclusive_owner_def shared_value_def hit_value_def fun_eq_iff)

lemma access_memory_mesi:
  "protocol s \<noteq> ''none'' \<Longrightarrow>
   access_memory r a k rnd s = access_with_mesi r a k rnd (add_memory_accesses 1 s)"
  by (simp add: access_memory_def Let_def)

lemma access_memory_none:
  "protocol s = ''none'' \<Longrightarrow>
   access_memory r a k rnd s = access_without_coherence r a k rnd (add_memory_accesses 1 s)"
  by (simp add: access_memory_def Let_def)

lemma mesi_inv_access_memory:
  assumes "mesi_inv s"
  shows "mesi_inv (snd (access_memory r a k rnd s))"
proof -
  let ?s0 = "add_memory_accesses 1 s"
  let ?s' = "snd (access_with_mesi r a k rnd ?s0)"
  from assms have p: "protocol s = ''MESI''" and te: "tables_exist s"
    and ec: "entries_cached s" and eo: "exclusive_owner s"
    by (simp_all add: mesi_inv_def)
  have am: "access_memory r a k rnd s = access_with_mesi r a k rnd ?s0"
    using p by (simp add: access_memory_mesi)
  show ?thesis
  proof (cases "registered s r")
    case False
    then have "access_with_mesi r a k rnd ?s0 = (Inl KeyError, ?s0)"
      by (simp add: access_with_mesi_unregistered)
    then show ?thesis using assms by (simp add: am mesi_inv_def)
  next
    case True
    have te0: "tables_exist ?s0" and ec0: "entries_cached ?s0" and r0: "registered ?s0 r"
      using te ec True by simp_all
    have 1: "protocol ?s' = ''MESI''" using p by simp
    have 2: "tables_exist ?s'" using te by (simp add: tables_exist_iff)
    have 3: "entries_cached ?s'"
      unfolding entries_cached_def access_with_mesi_cache [OF te0 r0]
        access_with_mesi_entry [OF te0 r0]
      using ec by (auto simp add: entries_cached_def split: if_splits)
    have 4: "exclusive_owner ?s'"
      unfolding exclusive_owner_def access_with_mesi_state_of [OF te0 ec0 r0]
      using eo by (auto simp add: exclusive_owner_def split: if_splits)
    show ?thesis using 1 2 3 4 by (simp add: am mesi_inv_def)
  qed
qed

lemma init_thread_cache_mesi:
  assumes "protocol s = ''MESI''"
  shows "protocol (init_thread_cache tid s) = ''MESI''"
    and "registered (init_thread_cache tid s) t = (t = tid \<or> registered s t)"
    and "has_table (init_thread_cache tid s) t = (t = tid \<or> has_table s t)"
    and "cache_lookup (init_thread_cache tid s) t a = (if t = tid then None else cache_lookup s t a)"
    and "state_entry (init_thread_cache tid s) t a = (if t = tid then None else state_entry s t a)"
  using assms
  by (auto simp add: init_thread_cache_def Let_def registered_def has_table_def cache_lookup_def
        state_entry_def update_conv')

lemma mesi_inv_init_thread_cache:
  assumes "mesi_inv s"
  shows "mesi_inv (init_thread_cache tid s)"
proof -
  from assms have p: "protocol s = ''MESI''" and te: "tables_exist s"
    and ec: "entries_cached s" and eo: "exclusive_owner s"
    by (simp_all add: mesi_inv_def)
  note e = init_thread_cache_mesi [OF p]
  have so: "state_of (init_thread_cache tid s) t a = (if t = tid then Invalid else state_of s t a)" for t a
    by (simp add: state_of_def e)
  have 2: "tables_exist (init_thread_cache tid s)"
    using te by (auto simp add: tables_exist_iff e)
  have 3: "entries_cached (init_thread_cache tid s)"
    using ec by (auto simp add: entries_cached_def e)
  have 4: "exclusive_owner (init_thread_cache tid s)"
    using eo unfolding exclusive_owner_def so by auto
  show ?thesis using e(1) 2 3 4 by (simp add: mesi_inv_def)
qed

lemma mesi_inv_init: "mesi_inv (init_CacheSimulator ''MESI'')"
  by (simp add: mesi_inv_def init_CacheSimulator_def tables_exist_def entries_cached_def
        exclusive_owner_def state_of_def state_entry_def)

lemma mesi_inv_run_calls: "mesi_inv s \<Longrightarrow> mesi_inv (run_calls cs s)"
proof (induction cs arbitrary: s)
  case Nil
  then show ?case by (simp add: run_calls_def)
next
  case (Cons c cs)
  have "mesi_inv (call_step c s)"
    using Cons.prems by (cases c) (simp_all add: mesi_inv_init_thread_cache mesi_inv_access_memory)
  then have "mesi_inv (run_calls cs (call_step c s))" by (rule Cons.IH)
  then show ?case by (simp add: run_calls_def)
qed

subsection \<open>The path without coherence\<close>

lemma access_without_coherence_unregistered:
  "\<not> registered s r \<Longrightarrow> access_without_coherence r a k rnd s = (Inl KeyError, s)"
  by (simp add: access_without_coherence_def registered_def)

lemma access_without_coherence_unfold:
  assumes "registered s r"
  shows "access_without_coherence r a k rnd s =
     (let s3 = (if cache_lookup s r a = None
                then set_cache r a (shared_value s a)
                       (if map_of (shared_memory s) a = None
                        then set_shared a 0 (add_cache_misses 1 s) else add_cache_misses 1 s)
                else s)
      in if k = ''read'' then (Inr (none_result s r a k rnd), s3)
         else (Inr rnd, set_shared a rnd (set_cache r a rnd s3)))"
proof -
  from assms obtain cache where c: "map_of (caches s) r = Some cache"
    by (auto simp add: registered_def)
  have cl: "cache_lookup s r a = map_of cache a" using c by (simp add: cache_lookup_def)
  show ?thesis using assms
    unfolding access_without_coherence_def c option.case cl [symmetric]
    by (auto simp add: Let_def shared_value_def none_result_def cache_lookup_set_cache
          split: option.splits)
qed

lemma access_without_coherence_value:
  "registered s r \<Longrightarrow> fst (access_without_coherence r a k rnd s) = Inr (none_result s r a k rnd)"
  by (simp add: access_without_coherence_unfold Let_def none_result_def)

lemma access_without_coherence_cache:
  "registered s r \<Longrightarrow>
   cache_lookup (snd (access_without_coherence r a k rnd s)) t a' =
     (if t = r \<and> a' = a then Some (none_result s r a k rnd) else cache_lookup s t a')"
  by (auto simp add: access_without_coherence_unfold Let_def none_result_def cache_lookup_set_cache
        split: option.splits)

lemma access_without_coherence_shared:
  "registered s r \<Longrightarrow> k \<noteq> ''read'' \<Longrightarrow>
   map_of (shared_memory (snd (access_without_coherence r a k rnd s))) a = Some rnd"
  by (simp add: access_without_coherence_unfold Let_def)

lemma access_without_coherence_misses:
  "registered s r \<Longrightarrow>
   cache_misses (metrics (snd (access_without_coherence r a k rnd s))) =
     cache_misses (metrics s) + (if cache_lookup s r a = None then 1 else 0)"
  by (simp add: access_without_coherence_unfold Let_def)

lemma access_without_coherence_monotone:
  "memory_accesses (metrics (snd (access_without_coherence r a k rnd s))) = memory_accesses (metrics s)"
  "cache_misses (metrics s) \<le> cache_misses (metrics (snd (access_without_coherence r a k rnd s)))"
  "coherence_messages (metrics (snd (access_without_coherence r a k rnd s))) = coherence_messages (metrics s)"
proof -
  let ?s' = "snd (access_without_coherence r a k rnd s)"
  have "memory_accesses (metrics ?s') = memory_accesses (metrics s)
      \<and> cache_misses (metrics s) \<le> cache_misses (metrics ?s')
      \<and> coherence_messages (metrics ?s') = coherence_messages (metrics s)"
  proof (cases "registered s r")
    case True
    then show ?thesis by (simp add: access_without_coherence_unfold Let_def)
  next
    case False
    then show ?thesis by (simp add: access_without_coherence_unregistered)
  qed
  then show "memory_accesses (metrics ?s') = memory_accesses (metrics s)"
    "cache_misses (metrics s) \<le> cache_misses (metrics ?s')"
    "coherence_messages (metrics ?s') = coherence_messages (metrics s)"
    by simp_all
qed

lemma access_without_coherence_preserves [simp]:
  "protocol (snd (access_without_coherence r a k rnd s)) = protocol s"
  "registered (snd (access_without_coherence r a k rnd s)) = registered s"
  "coherence_states (snd (access_without_coherence r a k rnd s)) = coherence_states s"
proof -
  let ?s' = "snd (access_without_coherence r a k rnd s)"
  have "protocol ?s' = protocol s \<and> registered ?s' = registered s
      \<and> coherence_states ?s' = coherence_states s"
  proof (cases "registered s r")
    case True
    then show ?thesis by (simp add: access_without_coherence_unfold Let_def fun_eq_iff)
  next
    case False
    then show ?thesis by (simp add: access_without_coherence_unregistered)
  qed
  then show "protocol ?s' = protocol s" "registered ?s' = registered s"
    "coherence_states ?s' = coherence_states s"
    by simp_all
qed

subsection \<open>Any protocol\<close>

lemma access_memory_monotone:
  "memory_accesses (metrics s) \<le> memory_accesses (metrics (snd (access_memory r a k rnd s)))"
  "cache_misses (metrics s) \<le> cache_misses (metrics (snd (access_memory r a k rnd s)))"
  "coherence_messages (metrics s) \<le> coherence_messages (metrics (snd (access_memory r a k rnd s)))"
proof -
  let ?s0 = "add_memory_accesses 1 s"
  have 1: "cache_misses (metrics s) \<le> cache_misses (metrics (snd (access_with_mesi r a k rnd ?s0)))"
    using access_with_mesi_monotone(2) [of ?s0 r a k rnd] by simp
  have 2: "coherence_messages (metrics s)
             \<le> coherence_messages (metrics (snd (access_with_mesi r a k rnd ?s0)))"
    using access_with_mesi_monotone(3) [of ?s0 r a k rnd] by simp
  have 3: "cache_misses (metrics s)
             \<le> cache_misses (metrics (snd (access_without_coherence r a k rnd ?s0)))"
    using access_without_coherence_monotone(2) [of ?s0 r a k rnd] by simp
  show "memory_accesses (metrics s) \<le> memory_accesses (metrics (snd (access_memory r a k rnd s)))"
    by (cases "protocol s = ''none''")
       (simp_all add: access_memory_mesi access_memory_none access_with_mesi_monotone
          access_without_coherence_monotone)
  show "cache_misses (metrics s) \<le> cache_misses (metrics (snd (access_memory r a k rnd s)))"
    using 1 3 by (cases "protocol s = ''none''") (simp_all add: access_memory_mesi access_memory_none)
  show "coherence_messages (metrics s) \<le> coherence_messages (metrics (snd (access_memory r a k rnd s)))"
    using 2 by (cases "protocol s = ''none''")
       (simp_all add: access_memory_mesi access_memory_none access_without_coherence_monotone)
qed

lemma init_thread_cache_metrics [simp]: "metrics (init_thread_cache tid s) = metrics s"
  by (simp add: init_thread_cache_def Let_def)

lemma call_step_monotone:
  "memory_accesses (metrics s) \<le> memory_accesses (metrics (call_step c s))"
  "cache_misses (metrics s) \<le> cache_misses (metrics (call_step c s))"
  "coherence_messages (metrics s) \<le> coherence_messages (metrics (call_step c s))"
  by (cases c, simp_all add: access_memory_monotone)+

lemma untouched_not_cached: "untouched s a \<Longrightarrow> cache_lookup s r a = None"
proof (rule ccontr)
  assume u: "untouched s a" and "cache_lookup s r a \<noteq> None"
  then obtain c v where c: "map_of (caches s) r = Some c" and v: "map_of c a = Some v"
    by (auto simp add: cache_lookup_def split: option.splits)
  from c have "(r, c) \<in> set (caches s)" by (rule map_of_SomeD)
  with u have "map_of c a = None" by (auto simp add: untouched_def list_all_iff)
  with v show False by simp
qed

text \<open>An engine built with a protocol that is neither name never gets a coherence table.\<close>

lemma other_protocol_run_calls:
  assumes "protocol s \<noteq> ''MESI''" and "protocol s \<noteq> ''none''" and "coherence_states s = []"
  shows "protocol (run_calls cs s) = protocol s \<and> coherence_states (run_calls cs s) = []"
  using assms
proof (induction cs arbitrary: s)
  case Nil
  then show ?case by (simp add: run_calls_def)
next
  case (Cons c cs)
  have "protocol (call_step c s) = protocol s \<and> coherence_states (call_step c s) = []"
  proof (cases c)
    case (Init_thread_cache tid)
    then show ?thesis using Cons.prems by (simp add: init_thread_cache_def Let_def)
  next
    case (Access_memory r a k rnd)
    have "\<not> has_table (add_memory_accesses 1 s) r"
      using Cons.prems by (simp add: has_table_def)
    then show ?thesis using Access_memory Cons.prems
      by (simp add: access_memory_mesi access_with_mesi_unregistered)
  qed
  with Cons.IH [of "call_step c s"] Cons.prems show ?case
    by (simp add: run_calls_def)
qed

subsection \<open>Sequences of calls\<close>

lemma init_thread_cache_protocol [simp]: "protocol (init_thread_cache tid s) = protocol s"
  by (simp add: init_thread_cache_def Let_def)

lemma access_memory_protocol [simp]: "protocol (snd (access_memory r a k rnd s)) = protocol s"
  by (cases "protocol s = ''none''") (simp_all add: access_memory_mesi access_memory_none)

lemma protocol_run_calls: "protocol (run_calls cs s) = protocol s"
proof (induction cs arbitrary: s)
  case Nil
  then show ?case by (simp add: run_calls_def)
next
  case (Cons c cs)
  have "protocol (call_step c s) = protocol s" by (cases c) simp_all
  with Cons.IH [of "call_step c s"] show ?case by (simp add: run_calls_def)
qed

lemma init_protocol [simp]: "protocol (init_CacheSimulator p) = p"
  by (simp add: init_CacheSimulator_def)

lemma mesi_inv_reachable: "mesi_inv (run_calls cs (init_CacheSimulator ''MESI''))"
  using mesi_inv_init by (rule mesi_inv_run_calls)

lemma access_kind_only_read:
  assumes "k \<noteq> ''read''"
  shows "access_memory r a k rnd s = access_memory r a ''write'' rnd s"
proof -
  have kf: "(k = ''read'') = False" using assms by simp
  have wf: "(''write'' = ''read'') = False" by simp
  have m: "mesi_miss r a k = mesi_miss r a ''write''"
    unfolding mesi_miss_def kf wf by (rule refl)
  have 1: "access_with_mesi r a k rnd = access_with_mesi r a ''write'' rnd"
    unfolding access_with_mesi_def m kf wf by (rule refl)
  have 2: "access_without_coherence r a k rnd = access_without_coherence r a ''write'' rnd"
    unfolding access_without_coherence_def kf wf by (rule refl)
  show ?thesis unfolding access_memory_def 1 2 by (rule refl)
qed

section \<open>The claims\<close>

subsection \<open>Mutual exclusivity\<close>

text \<open>
  Claim C1. In an engine built with protocol \<^verbatim>\<open>'MESI'\<close>, after any sequence of
  \<^verbatim>\<open>init_thread_cache\<close> and \<^verbatim>\<open>access_memory\<close> calls, for every address and any two
  different threads: if one holds the address Modified or Exclusive, the other holds it
  neither Modified nor Exclusive; and if one holds it Modified, the other holds it Invalid.
\<close>

theorem mesi_mutual_exclusivity:
  assumes "t1 \<noteq> t2"
  shows "(state_of (run_calls cs (init_CacheSimulator ''MESI'')) t1 a = Modified
            \<or> state_of (run_calls cs (init_CacheSimulator ''MESI'')) t1 a = Exclusive
          \<longrightarrow> state_of (run_calls cs (init_CacheSimulator ''MESI'')) t2 a \<noteq> Modified
            \<and> state_of (run_calls cs (init_CacheSimulator ''MESI'')) t2 a \<noteq> Exclusive)
       \<and> (state_of (run_calls cs (init_CacheSimulator ''MESI'')) t1 a = Modified
          \<longrightarrow> state_of (run_calls cs (init_CacheSimulator ''MESI'')) t2 a = Invalid)"
proof -
  let ?s = "run_calls cs (init_CacheSimulator ''MESI'' :: ('a, 'b) CacheSimulator)"
  have "mesi_inv ?s"
    using mesi_inv_init by (rule mesi_inv_run_calls)
  then have "exclusive_owner ?s"
    by (simp add: mesi_inv_def)
  then have "state_of ?s t1 a = Modified \<or> state_of ?s t1 a = Exclusive \<Longrightarrow> state_of ?s t2 a = Invalid"
    using assms unfolding exclusive_owner_def by blast
  then show ?thesis by auto
qed

theorem mesi_mutual_exclusivity_witness:
  "(0::nat) \<noteq> 1
   \<and> state_of (run_calls write_then_idle (init_CacheSimulator ''MESI'')) 0 ''X'' = Modified
   \<and> state_of (run_calls write_then_idle (init_CacheSimulator ''MESI'')) 1 ''X'' = Invalid"
proof -
  have ne: "(0::nat) \<noteq> 1" by simp
  have m: "state_of (run_calls write_then_idle (init_CacheSimulator ''MESI'')) (0::nat) ''X'' = Modified"
    by code_simp
  from mesi_mutual_exclusivity [OF ne, of write_then_idle "''X''"] m ne show ?thesis by blast
qed

subsection \<open>Coherence state and cache entry\<close>

text \<open>
  Claim C2, as the code has it. In an engine built with protocol \<^verbatim>\<open>'MESI'\<close>, after any
  sequence of calls, a thread whose coherence state for an address is not Invalid has a cache
  entry for that address. The converse fails, as the concrete run below shows: invalidating a
  thread sets its state only, and the entry stays in its cache.
\<close>

theorem mesi_valid_state_is_cached:
  assumes "state_of (run_calls cs (init_CacheSimulator ''MESI'')) t a \<noteq> Invalid"
  shows "cache_lookup (run_calls cs (init_CacheSimulator ''MESI'')) t a \<noteq> None"
proof -
  let ?s = "run_calls cs (init_CacheSimulator ''MESI'' :: ('a, 'b) CacheSimulator)"
  have "entries_cached ?s" using mesi_inv_reachable [of cs] by (simp add: mesi_inv_def)
  moreover have "state_entry ?s t a \<noteq> None"
    using assms by (auto simp add: state_of_def split: option.splits)
  ultimately show ?thesis unfolding entries_cached_def by blast
qed

theorem mesi_valid_state_is_cached_witness:
  "state_of (run_calls write_then_idle (init_CacheSimulator ''MESI'')) 0 ''X'' \<noteq> Invalid
   \<and> cache_lookup (run_calls write_then_idle (init_CacheSimulator ''MESI'')) 0 ''X'' \<noteq> None"
proof -
  have h: "state_of (run_calls write_then_idle (init_CacheSimulator ''MESI'')) 0 ''X'' \<noteq> Invalid"
    by code_simp
  from mesi_valid_state_is_cached [OF h] h show ?thesis by blast
qed

text \<open>
  Thread 0 reads \<^verbatim>\<open>'X'\<close>, then thread 1 writes it: thread 0 is Invalid for \<^verbatim>\<open>'X'\<close> and
  still has \<^verbatim>\<open>'X'\<close> in its cache, so "cache entry if and only if state not Invalid" is false.
\<close>

theorem invalidated_copy_stays_cached:
  "\<not> ((cache_lookup (run_calls read_then_foreign_write (init_CacheSimulator ''MESI'')) 0 ''X'' \<noteq> None)
       = (state_of (run_calls read_then_foreign_write (init_CacheSimulator ''MESI'')) 0 ''X'' \<noteq> Invalid))"
  by code_simp

subsection \<open>The end-to-end scenario\<close>

text \<open>
  Claim C3. On a fresh MESI engine with threads 0 and 1 initialised and an address \<open>x\<close>
  nobody has touched: the write of thread 0 is a miss (one more cache miss), leaves thread 0
  Modified and adds 2 coherence messages; the following read of thread 1 is a miss, leaves
  both threads Shared, adds 2 messages and returns the value the write of thread 0 stored;
  the following write of thread 1 is no miss, leaves thread 1 Modified and thread 0 Invalid,
  adds 1 message, and its generated value is returned and stored in the cache of thread 1 and
  in the shared memory. The numbers \<open>v1\<close>, \<open>d\<close>, \<open>v2\<close> are what the generator yields in
  the three calls.
\<close>

theorem end_to_end_scenario:
  "(let s0 = (scenario_start :: (nat, 'a) CacheSimulator);
        r1 = access_memory 0 x ''write'' v1 s0; s1 = snd r1;
        r2 = access_memory 1 x ''read'' d s1; s2 = snd r2;
        r3 = access_memory 1 x ''write'' v2 s2; s3 = snd r3
    in cache_misses (metrics s1) = cache_misses (metrics s0) + 1
     \<and> state_of s1 0 x = Modified
     \<and> coherence_messages (metrics s1) = coherence_messages (metrics s0) + 2
     \<and> fst r1 = Inr v1 \<and> map_of (shared_memory s1) x = Some v1
     \<and> cache_misses (metrics s2) = cache_misses (metrics s1) + 1
     \<and> state_of s2 1 x = Shared \<and> state_of s2 0 x = Shared
     \<and> coherence_messages (metrics s2) = coherence_messages (metrics s1) + 2
     \<and> fst r2 = Inr v1
     \<and> cache_misses (metrics s3) = cache_misses (metrics s2)
     \<and> state_of s3 1 x = Modified \<and> state_of s3 0 x = Invalid
     \<and> coherence_messages (metrics s3) = coherence_messages (metrics s2) + 1
     \<and> fst r3 = Inr v2 \<and> cache_lookup s3 1 x = Some v2
     \<and> map_of (shared_memory s3) x = Some v2)"
  by (simp add: scenario_start_def engine_defs Let_def)

subsection \<open>The fan-out over table entries\<close>

text \<open>
  Claim C4. Under protocol \<^verbatim>\<open>'MESI'\<close>, when the access of an initialised thread \<open>r\<close> to
  address \<open>a\<close> is a miss: a read that finds a copy in another cache leaves Shared exactly
  the requester and the initialised threads whose table has an entry for \<open>a\<close>; a write leaves
  the requester Modified and Invalid exactly the other initialised threads whose table has an
  entry for \<open>a\<close>; every other table stays as it was. Nothing is assumed about the caches of
  the other threads, and an entry that was Invalid counts like any other.
\<close>

theorem mesi_fanout_follows_table_entries:
  assumes "protocol s = ''MESI''" and "tables_exist s" and "registered s r" and "is_miss s r a"
  shows "(k = ''read'' \<and> other_has_copy r a s \<longrightarrow>
            state_entry (snd (access_memory r a k rnd s)) t a =
              (if t = r \<or> (registered s t \<and> state_entry s t a \<noteq> None) then Some Shared
               else state_entry s t a))
       \<and> (k = ''write'' \<longrightarrow>
            state_entry (snd (access_memory r a k rnd s)) t a =
              (if t = r then Some Modified
               else if registered s t \<and> state_entry s t a \<noteq> None then Some Invalid
               else state_entry s t a))"
proof -
  let ?m = "add_memory_accesses 1 s"
  have am: "access_memory r a k rnd s = access_with_mesi r a k rnd ?m"
    using assms(1) by (simp add: access_memory_mesi)
  have te: "tables_exist ?m" and r0: "registered ?m r" and miss: "is_miss ?m r a"
    using assms by simp_all
  show ?thesis
    unfolding am access_with_mesi_entry [OF te r0] using miss by auto
qed

theorem mesi_fanout_follows_table_entries_witness:
  "protocol (run_calls read_then_foreign_write (init_CacheSimulator ''MESI'')) = ''MESI''
   \<and> tables_exist (run_calls read_then_foreign_write (init_CacheSimulator ''MESI''))
   \<and> registered (run_calls read_then_foreign_write (init_CacheSimulator ''MESI'')) 2
   \<and> is_miss (run_calls read_then_foreign_write (init_CacheSimulator ''MESI'')) 2 ''X''
   \<and> other_has_copy 2 ''X'' (run_calls read_then_foreign_write (init_CacheSimulator ''MESI''))
   \<and> state_entry (run_calls read_then_foreign_write (init_CacheSimulator ''MESI'')) 0 ''X''
       = Some Invalid
   \<and> state_entry (snd (access_memory 2 ''X'' ''read'' 7
        (run_calls read_then_foreign_write (init_CacheSimulator ''MESI'')))) 0 ''X'' = Some Shared
   \<and> state_entry (snd (access_memory 2 ''X'' ''write'' 7
        (run_calls read_then_foreign_write (init_CacheSimulator ''MESI'')))) 1 ''X'' = Some Invalid"
proof -
  let ?s = "run_calls read_then_foreign_write (init_CacheSimulator ''MESI'')"
  have p: "protocol ?s = ''MESI''" by code_simp
  have te: "tables_exist ?s" by code_simp
  have r: "registered ?s 2" by code_simp
  have m: "is_miss ?s 2 ''X''" by code_simp
  have o: "other_has_copy 2 ''X'' ?s" by code_simp
  have e0: "state_entry ?s 0 ''X'' = Some Invalid" by code_simp
  have e1: "state_entry ?s 1 ''X'' = Some Modified" by code_simp
  have r0: "registered ?s 0" by code_simp
  have r1: "registered ?s 1" by code_simp
  have rd: "state_entry (snd (access_memory 2 ''X'' ''read'' 7 ?s)) 0 ''X'' = Some Shared"
    using mesi_fanout_follows_table_entries [OF p te r m, of "''read''" 7 0] o e0 r0 by simp
  have wr: "state_entry (snd (access_memory 2 ''X'' ''write'' 7 ?s)) 1 ''X'' = Some Invalid"
    using mesi_fanout_follows_table_entries [OF p te r m, of "''write''" 7 1] e1 r1 by simp
  from p te r m o e0 rd wr show ?thesis by blast
qed

subsection \<open>Miss accounting\<close>

text \<open>
  Claim C5. In an engine built with protocol \<^verbatim>\<open>'MESI'\<close> or \<^verbatim>\<open>'none'\<close>, after any sequence
  of calls, the access of an initialised thread to an address that is in no cache and not in
  the shared memory adds exactly 1 to the cache misses, whatever the access type.
\<close>

theorem first_access_is_miss:
  assumes "p = ''MESI'' \<or> p = ''none''"
    and "registered (run_calls cs (init_CacheSimulator p)) r"
    and "untouched (run_calls cs (init_CacheSimulator p)) a"
  shows "cache_misses (metrics (snd (access_memory r a k rnd (run_calls cs (init_CacheSimulator p)))))
           = cache_misses (metrics (run_calls cs (init_CacheSimulator p))) + 1"
proof -
  let ?s = "run_calls cs (init_CacheSimulator p :: ('a, 'b) CacheSimulator)"
  let ?m = "add_memory_accesses 1 ?s"
  have p: "protocol ?s = p" by (simp add: protocol_run_calls)
  have r0: "registered ?m r" using assms(2) by simp
  have nc: "cache_lookup ?m r a = None" using untouched_not_cached [OF assms(3), of r] by simp
  from assms(1) show ?thesis
  proof
    assume m: "p = ''MESI''"
    then have inv: "mesi_inv ?s" using mesi_inv_reachable [of cs] by simp
    then have te: "tables_exist ?m" by (simp add: mesi_inv_def)
    have am: "access_memory r a k rnd ?s = access_with_mesi r a k rnd ?m"
      using p m by (simp add: access_memory_mesi)
    have miss: "is_miss ?m r a" using nc by (simp add: is_miss_def)
    show ?thesis
      unfolding am access_with_mesi_misses [OF te r0] using miss by simp
  next
    assume n: "p = ''none''"
    have am: "access_memory r a k rnd ?s = access_without_coherence r a k rnd ?m"
      using p n by (simp add: access_memory_none)
    show ?thesis
      unfolding am access_without_coherence_misses [OF r0] using nc by simp
  qed
qed

theorem first_access_is_miss_witness:
  "(''MESI'' = ''MESI'' \<or> ''MESI'' = ''none'')
   \<and> registered (run_calls write_then_idle (init_CacheSimulator ''MESI'')) 1
   \<and> untouched (run_calls write_then_idle (init_CacheSimulator ''MESI'')) ''Y''
   \<and> cache_misses (metrics (snd (access_memory 1 ''Y'' ''read'' 7
        (run_calls write_then_idle (init_CacheSimulator ''MESI'')))))
      = cache_misses (metrics (run_calls write_then_idle (init_CacheSimulator ''MESI''))) + 1"
proof -
  have p: "''MESI'' = ''MESI'' \<or> ''MESI'' = ''none''" by simp
  have h: "registered (run_calls write_then_idle (init_CacheSimulator ''MESI'')) 1"
    by code_simp
  have u: "untouched (run_calls write_then_idle (init_CacheSimulator ''MESI'')) ''Y''"
    by code_simp
  from first_access_is_miss [OF p h u, of "''read''" 7] p h u show ?thesis by blast
qed

subsection \<open>Staleness without coherence\<close>

text \<open>
  Claim C6. Under protocol \<^verbatim>\<open>'none'\<close>, for two different threads \<open>A\<close> and \<open>B\<close>, where
  \<open>A\<close> is initialised and the cache of \<open>B\<close> holds \<open>v\<close> for \<open>x\<close>: after \<open>A\<close> writes \<open>x\<close>
  the shared memory holds the written value \<open>w\<close>, and the following read of \<open>B\<close> returns
  \<open>v\<close> and adds no cache miss.
\<close>

theorem no_coherence_staleness:
  assumes "protocol s = ''none''" and "A \<noteq> B" and "registered s A"
    and "cache_lookup s B x = Some v"
  shows "map_of (shared_memory (snd (access_memory A x ''write'' w s))) x = Some w
       \<and> fst (access_memory B x ''read'' d (snd (access_memory A x ''write'' w s))) = Inr v
       \<and> cache_misses (metrics (snd (access_memory B x ''read'' d (snd (access_memory A x ''write'' w s)))))
           = cache_misses (metrics (snd (access_memory A x ''write'' w s)))"
proof -
  let ?m = "add_memory_accesses 1 s"
  let ?s1 = "snd (access_memory A x ''write'' w s)"
  let ?m1 = "add_memory_accesses 1 ?s1"
  have rA: "registered ?m A" using assms(3) by simp
  have wr: "''write'' \<noteq> ''read''" by simp
  have am: "access_memory A x ''write'' w s = access_without_coherence A x ''write'' w ?m"
    using assms(1) by (simp add: access_memory_none)
  have p1: "protocol ?s1 = ''none''" using assms(1) by simp
  have c1: "cache_lookup ?s1 B x = Some v"
    unfolding am access_without_coherence_cache [OF rA] using assms(2,4) by simp
  then have rB: "registered ?m1 B" using cached_registered [of ?s1 B x] by simp
  have am1: "access_memory B x ''read'' d ?s1 = access_without_coherence B x ''read'' d ?m1"
    using p1 by (rule access_memory_none)
  have 1: "map_of (shared_memory ?s1) x = Some w"
    unfolding am using rA wr by (rule access_without_coherence_shared)
  have 2: "fst (access_memory B x ''read'' d ?s1) = Inr v"
    unfolding am1 access_without_coherence_value [OF rB] using c1 by (simp add: none_result_def)
  have 3: "cache_misses (metrics (snd (access_memory B x ''read'' d ?s1))) = cache_misses (metrics ?s1)"
    unfolding am1 access_without_coherence_misses [OF rB] using c1 by simp
  from 1 2 3 show ?thesis by blast
qed

theorem no_coherence_staleness_witness:
  "protocol (run_calls read_by_second (init_CacheSimulator ''none'')) = ''none''
   \<and> (0::nat) \<noteq> 1
   \<and> registered (run_calls read_by_second (init_CacheSimulator ''none'')) 0
   \<and> cache_lookup (run_calls read_by_second (init_CacheSimulator ''none'')) 1 ''X'' = Some 0
   \<and> map_of (shared_memory (snd (access_memory 0 ''X'' ''write'' 42
        (run_calls read_by_second (init_CacheSimulator ''none''))))) ''X'' = Some 42
   \<and> fst (access_memory 1 ''X'' ''read'' 7 (snd (access_memory 0 ''X'' ''write'' 42
        (run_calls read_by_second (init_CacheSimulator ''none''))))) = Inr 0"
proof -
  let ?s = "run_calls read_by_second (init_CacheSimulator ''none'')"
  have p: "protocol ?s = ''none''" by code_simp
  have ne: "(0::nat) \<noteq> 1" by simp
  have r: "registered ?s 0" by code_simp
  have c: "cache_lookup ?s 1 ''X'' = Some 0" by code_simp
  from no_coherence_staleness [OF p ne r c, of 42 7] p ne r c show ?thesis by blast
qed

subsection \<open>Write-through\<close>

text \<open>
  Claim C7. In an engine built with protocol \<^verbatim>\<open>'MESI'\<close> or \<^verbatim>\<open>'none'\<close>, after any sequence
  of calls, a write of an initialised thread returns the number the generator yields in this
  call, whatever the state was, and that number is then the entry of the thread's cache and
  of the shared memory for the address.
\<close>

theorem write_through:
  assumes "p = ''MESI'' \<or> p = ''none''"
    and "registered (run_calls cs (init_CacheSimulator p)) r"
  shows "fst (access_memory r a ''write'' rnd (run_calls cs (init_CacheSimulator p))) = Inr rnd
       \<and> cache_lookup (snd (access_memory r a ''write'' rnd (run_calls cs (init_CacheSimulator p)))) r a
           = Some rnd
       \<and> map_of (shared_memory
            (snd (access_memory r a ''write'' rnd (run_calls cs (init_CacheSimulator p))))) a
           = Some rnd"
proof -
  let ?s = "run_calls cs (init_CacheSimulator p :: ('a, 'b) CacheSimulator)"
  let ?m = "add_memory_accesses 1 ?s"
  have p: "protocol ?s = p" by (simp add: protocol_run_calls)
  have r0: "registered ?m r" using assms(2) by simp
  have w: "''write'' \<noteq> ''read''" by simp
  from assms(1) show ?thesis
  proof
    assume m: "p = ''MESI''"
    then have inv: "mesi_inv ?s" using mesi_inv_reachable [of cs] by simp
    then have te: "tables_exist ?m" by (simp add: mesi_inv_def)
    have am: "access_memory r a ''write'' rnd ?s = access_with_mesi r a ''write'' rnd ?m"
      using p m by (simp add: access_memory_mesi)
    show ?thesis
      unfolding am access_with_mesi_cache [OF te r0] access_with_mesi_value [OF te r0]
      using access_with_mesi_shared [OF te r0 w, of a rnd] by (simp add: mesi_result_def)
  next
    assume n: "p = ''none''"
    have am: "access_memory r a ''write'' rnd ?s = access_without_coherence r a ''write'' rnd ?m"
      using p n by (simp add: access_memory_none)
    show ?thesis
      unfolding am access_without_coherence_cache [OF r0] access_without_coherence_value [OF r0]
      using access_without_coherence_shared [OF r0 w, of a rnd] by (simp add: none_result_def)
  qed
qed

theorem write_through_witness:
  "(''none'' = ''MESI'' \<or> ''none'' = ''none'')
   \<and> registered (run_calls read_by_second (init_CacheSimulator ''none'')) 0
   \<and> fst (access_memory 0 ''X'' ''write'' 42 (run_calls read_by_second (init_CacheSimulator ''none'')))
       = Inr 42
   \<and> cache_lookup (snd (access_memory 0 ''X'' ''write'' 42
        (run_calls read_by_second (init_CacheSimulator ''none'')))) 0 ''X'' = Some 42
   \<and> map_of (shared_memory (snd (access_memory 0 ''X'' ''write'' 42
        (run_calls read_by_second (init_CacheSimulator ''none''))))) ''X'' = Some 42"
proof -
  have p: "''none'' = ''MESI'' \<or> ''none'' = ''none''" by simp
  have h: "registered (run_calls read_by_second (init_CacheSimulator ''none'')) 0"
    by code_simp
  from write_through [OF p h, of "''X''" 42] p h show ?thesis by blast
qed

subsection \<open>Monotone counters\<close>

text \<open>
  Claim C8. For every state of an engine, whatever its protocol, none of the three counters
  is smaller after a call of \<^verbatim>\<open>access_memory\<close> than before, also when the call raises, and
  so none is smaller after a sequence of calls.
\<close>

theorem counters_monotone:
  "memory_accesses (metrics s) \<le> memory_accesses (metrics (snd (access_memory r a k rnd s)))
   \<and> cache_misses (metrics s) \<le> cache_misses (metrics (snd (access_memory r a k rnd s)))
   \<and> coherence_messages (metrics s) \<le> coherence_messages (metrics (snd (access_memory r a k rnd s)))
   \<and> memory_accesses (metrics s) \<le> memory_accesses (metrics (run_calls cs s))
   \<and> cache_misses (metrics s) \<le> cache_misses (metrics (run_calls cs s))
   \<and> coherence_messages (metrics s) \<le> coherence_messages (metrics (run_calls cs s))"
proof -
  have "memory_accesses (metrics s) \<le> memory_accesses (metrics (run_calls cs s))
      \<and> cache_misses (metrics s) \<le> cache_misses (metrics (run_calls cs s))
      \<and> coherence_messages (metrics s) \<le> coherence_messages (metrics (run_calls cs s))"
  proof (induction cs arbitrary: s)
    case Nil
    then show ?case by (simp add: run_calls_def)
  next
    case (Cons c cs)
    have step: "run_calls (c # cs) s = run_calls cs (call_step c s)"
      by (simp add: run_calls_def)
    show ?case
      unfolding step
      using Cons.IH [of "call_step c s"] call_step_monotone [of s c] by linarith
  qed
  then show ?thesis by (simp add: access_memory_monotone)
qed

subsection \<open>Calls outside the contract\<close>

text \<open>
  Claim C9, as the code has it. An access by a thread that was never initialised raises
  \<^verbatim>\<open>KeyError\<close>, and so does every access on an engine built with a protocol other than
  \<^verbatim>\<open>'MESI'\<close> and \<^verbatim>\<open>'none'\<close>, after any sequence of calls. The failing call has added 1
  to the memory accesses before it raises (line 27 runs first) and changes nothing else of the
  engine. An access type other than \<^verbatim>\<open>'read'\<close> is not rejected: the call does what a write
  does.
\<close>

theorem unknown_thread_or_protocol_fails:
  "(\<not> registered s r \<longrightarrow>
        access_memory r a k rnd s = (Inl KeyError, add_memory_accesses 1 s))
   \<and> (p \<noteq> ''MESI'' \<and> p \<noteq> ''none'' \<longrightarrow>
        access_memory r a k rnd (run_calls cs (init_CacheSimulator p))
          = (Inl KeyError, add_memory_accesses 1 (run_calls cs (init_CacheSimulator p))))
   \<and> (k \<noteq> ''read'' \<longrightarrow> access_memory r a k rnd s = access_memory r a ''write'' rnd s)"
proof -
  have 1: "access_memory r a k rnd s = (Inl KeyError, add_memory_accesses 1 s)"
    if "\<not> registered s r"
  proof (cases "protocol s = ''none''")
    case True
    then show ?thesis using that
      by (simp add: access_memory_none access_without_coherence_unregistered)
  next
    case False
    then show ?thesis using that
      by (simp add: access_memory_mesi access_with_mesi_unregistered)
  qed
  have 2: "access_memory r a k rnd (run_calls cs (init_CacheSimulator p))
             = (Inl KeyError, add_memory_accesses 1 (run_calls cs (init_CacheSimulator p)))"
    if "p \<noteq> ''MESI''" and "p \<noteq> ''none''"
  proof -
    let ?s = "run_calls cs (init_CacheSimulator p :: ('a, 'b) CacheSimulator)"
    have "protocol ?s = p \<and> coherence_states ?s = []"
      using other_protocol_run_calls [of "init_CacheSimulator p" cs] that
      by (simp add: init_CacheSimulator_def)
    then have "protocol ?s \<noteq> ''none''" and "\<not> has_table (add_memory_accesses 1 ?s) r"
      using that by (simp_all add: has_table_def)
    then show ?thesis
      by (simp add: access_memory_mesi access_with_mesi_unregistered)
  qed
  from 1 2 access_kind_only_read [of k r a rnd s] show ?thesis
    by (intro conjI impI) (erule conjE | assumption)+
qed

theorem unknown_thread_or_protocol_fails_witness:
  "\<not> registered (scenario_start :: (nat, string) CacheSimulator) 5
   \<and> fst (access_memory 5 ''X'' ''read'' 7 (scenario_start :: (nat, string) CacheSimulator))
       = Inl KeyError
   \<and> memory_accesses (metrics (snd (access_memory 5 ''X'' ''read'' 7
        (scenario_start :: (nat, string) CacheSimulator))))
       = memory_accesses (metrics (scenario_start :: (nat, string) CacheSimulator)) + 1
   \<and> ''LRU'' \<noteq> ''MESI'' \<and> ''LRU'' \<noteq> ''none''
   \<and> fst (access_memory (0::nat) ''X'' ''read'' 7
        (run_calls [Init_thread_cache 0] (init_CacheSimulator ''LRU''))) = Inl KeyError
   \<and> memory_accesses (metrics (snd (access_memory (0::nat) ''X'' ''read'' 7
        (run_calls [Init_thread_cache 0] (init_CacheSimulator ''LRU'')))))
       = memory_accesses (metrics
           (run_calls [Init_thread_cache (0::nat)]
              (init_CacheSimulator ''LRU'' :: (nat, string) CacheSimulator))) + 1
   \<and> ''flush'' \<noteq> ''read''
   \<and> access_memory 0 ''X'' ''flush'' 7 (scenario_start :: (nat, string) CacheSimulator)
       = access_memory 0 ''X'' ''write'' 7 scenario_start"
proof -
  let ?s = "scenario_start :: (nat, string) CacheSimulator"
  let ?l = "run_calls [Init_thread_cache (0::nat)]
              (init_CacheSimulator ''LRU'' :: (nat, string) CacheSimulator)"
  have u: "\<not> registered ?s 5" by code_simp
  have q1: "''LRU'' \<noteq> ''MESI''" by simp
  have q2: "''LRU'' \<noteq> ''none''" by simp
  have f: "''flush'' \<noteq> ''read''" by simp
  have a: "access_memory 5 ''X'' ''read'' 7 ?s = (Inl KeyError, add_memory_accesses 1 ?s)"
    by (rule mp [OF conjunct1 [OF unknown_thread_or_protocol_fails] u])
  have b: "access_memory 0 ''X'' ''read'' 7 ?l = (Inl KeyError, add_memory_accesses 1 ?l)"
    by (rule mp [OF conjunct1 [OF conjunct2 [OF unknown_thread_or_protocol_fails]] conjI [OF q1 q2]])
  have c: "access_memory 0 ''X'' ''flush'' 7 ?s = access_memory 0 ''X'' ''write'' 7 ?s"
    by (rule mp [OF conjunct2 [OF conjunct2 [OF unknown_thread_or_protocol_fails]] f])
  have a1: "fst (access_memory 5 ''X'' ''read'' 7 ?s) = Inl KeyError"
    and a2: "memory_accesses (metrics (snd (access_memory 5 ''X'' ''read'' 7 ?s)))
               = memory_accesses (metrics ?s) + 1"
    unfolding a by simp_all
  have b1: "fst (access_memory 0 ''X'' ''read'' 7 ?l) = Inl KeyError"
    and b2: "memory_accesses (metrics (snd (access_memory 0 ''X'' ''read'' 7 ?l)))
               = memory_accesses (metrics ?l) + 1"
    unfolding b by simp_all
  show ?thesis
    using u a1 a2 q1 q2 b1 b2 f c by - (intro conjI; assumption)
qed

text \<open>
  The access type \<^verbatim>\<open>'flush'\<close> on the engine of the scenario: the call returns the generated
  number, it does not fail. And the access of thread 5, which was never initialised, raises
  only after the call has counted itself: the memory accesses go from 0 to 1.
\<close>

theorem access_is_not_validated:
  "''flush'' \<noteq> ''read'' \<and> ''flush'' \<noteq> ''write''
   \<and> registered (scenario_start :: (nat, string) CacheSimulator) 0
   \<and> fst (access_memory 0 ''X'' ''flush'' 7 (scenario_start :: (nat, string) CacheSimulator)) = Inr 7
   \<and> \<not> registered (scenario_start :: (nat, string) CacheSimulator) 5
   \<and> fst (access_memory 5 ''X'' ''read'' 7 (scenario_start :: (nat, string) CacheSimulator))
       = Inl KeyError
   \<and> memory_accesses (metrics (scenario_start :: (nat, string) CacheSimulator)) = 0
   \<and> memory_accesses (metrics (snd (access_memory 5 ''X'' ''read'' 7
        (scenario_start :: (nat, string) CacheSimulator)))) = 1"
  by code_simp

subsection \<open>The requester after its access\<close>

text \<open>
  Claim C10. In an engine built with protocol \<^verbatim>\<open>'MESI'\<close>, after any sequence of calls, an
  access of an initialised thread returns a value; right after the call the thread's state for
  the address is not Invalid and its cache entry for the address is the value returned.
\<close>

theorem mesi_access_leaves_valid_copy:
  assumes "registered (run_calls cs (init_CacheSimulator ''MESI'')) r"
  shows "\<exists>v. fst (access_memory r a k rnd (run_calls cs (init_CacheSimulator ''MESI''))) = Inr v
           \<and> cache_lookup (snd (access_memory r a k rnd (run_calls cs (init_CacheSimulator ''MESI'')))) r a
               = Some v
           \<and> state_of (snd (access_memory r a k rnd (run_calls cs (init_CacheSimulator ''MESI'')))) r a
               \<noteq> Invalid"
proof -
  let ?s = "run_calls cs (init_CacheSimulator ''MESI'' :: ('a, 'b) CacheSimulator)"
  let ?m = "add_memory_accesses 1 ?s"
  have inv: "mesi_inv ?s" by (rule mesi_inv_reachable)
  then have p: "protocol ?s \<noteq> ''none''" by (simp add: mesi_inv_def)
  have te: "tables_exist ?m" and ec: "entries_cached ?m" and r0: "registered ?m r"
    using inv assms by (simp_all add: mesi_inv_def)
  have am: "access_memory r a k rnd ?s = access_with_mesi r a k rnd ?m"
    using p by (rule access_memory_mesi)
  have hit: "\<not> is_miss ?m r a \<Longrightarrow> state_of ?m r a \<noteq> Invalid"
    by (simp add: is_miss_def)
  have 1: "fst (access_memory r a k rnd ?s) = Inr (mesi_result ?m r a k rnd)"
    unfolding am using te r0 by (rule access_with_mesi_value)
  have 2: "cache_lookup (snd (access_memory r a k rnd ?s)) r a = Some (mesi_result ?m r a k rnd)"
    unfolding am access_with_mesi_cache [OF te r0] by simp
  have 3: "state_of (snd (access_memory r a k rnd ?s)) r a \<noteq> Invalid"
    unfolding am access_with_mesi_state_of [OF te ec r0] using hit by auto
  from 1 2 3 show ?thesis by blast
qed

theorem mesi_access_leaves_valid_copy_witness:
  "registered (run_calls write_then_idle (init_CacheSimulator ''MESI'')) 1
   \<and> fst (access_memory 1 ''X'' ''read'' 7 (run_calls write_then_idle (init_CacheSimulator ''MESI'')))
       = Inr 42
   \<and> cache_lookup (snd (access_memory 1 ''X'' ''read'' 7
         (run_calls write_then_idle (init_CacheSimulator ''MESI'')))) 1 ''X'' = Some 42
   \<and> state_of (snd (access_memory 1 ''X'' ''read'' 7
         (run_calls write_then_idle (init_CacheSimulator ''MESI'')))) 1 ''X'' \<noteq> Invalid"
proof -
  have h: "registered (run_calls write_then_idle (init_CacheSimulator ''MESI'')) 1"
    by code_simp
  have v: "fst (access_memory 1 ''X'' ''read'' 7 (run_calls write_then_idle (init_CacheSimulator ''MESI'')))
             = Inr 42"
    by code_simp
  from mesi_access_leaves_valid_copy [OF h, of "''X''" "''read''" 7] v h show ?thesis by auto
qed

end
